theory Spec2Isabelle
  imports Main "HOL-Library.Word" "HOL-Library.Signed_Division"
begin

unbundle bit_operations_syntax

section \<open>Machine integers of \<^verbatim>\<open>unwrap_loops.c\<close>\<close>

text \<open>
  The samples of \<^verbatim>\<open>src/samples/src/c/unwrap_loops.c\<close> compute on \<^verbatim>\<open>int\<close>,
  \<^verbatim>\<open>unsigned int\<close> (32 bits) and \<^verbatim>\<open>__int64\<close> (64 bits). They are modelled as words:
  \<open>+\<close> wraps around as the machine instruction does, \<open>\<le>\<close> and \<open><\<close> on words are the
  unsigned comparisons, \<open>\<le>s\<close> and \<open><s\<close> the signed ones, \<open>signed_drop_bit\<close> is the
  arithmetic right shift of a signed \<^verbatim>\<open>int\<close>, and \<open>scast\<close> is the sign extension of an
  \<^verbatim>\<open>int\<close> to an \<^verbatim>\<open>__int64\<close>. A comparison of an \<^verbatim>\<open>int\<close> with an \<^verbatim>\<open>unsigned int\<close>
  is unsigned (the usual arithmetic conversions of C). C leaves the overflow of a signed
  operation undefined; the model takes the two's complement result of the machine.
\<close>

type_synonym int32 = "32 word"
type_synonym uint32 = "32 word"
type_synonym int64 = "64 word"
type_synonym uint64 = "64 word"

text \<open>An external call is logged in front of what the rest of the run produces.\<close>

definition emit :: "'e \<Rightarrow> 'e list \<times> 'r \<Rightarrow> 'e list \<times> 'r" where
  "emit e out = (e # fst out, snd out)"

section \<open>\<^verbatim>\<open>unwrap_loops\<close>: the spin wait\<close>

text \<open>
  The two external functions of \<^verbatim>\<open>unwrap_loops\<close> are
  \<^verbatim>\<open>_InterlockedCompareExchange(Destination, Exchange, Comperand)\<close> and
  \<^verbatim>\<open>unk_1802CCC58(int)\<close>; a run is observed as the list of its calls to them. The only
  destination is \<^verbatim>\<open>&g_mutex.SpinCount\<close>.
\<close>

datatype lvalue = G_mutex_SpinCount

datatype event_1 =
    InterlockedCompareExchange lvalue int32 int32
  | Unk_1802CCC58 int32

text \<open>The locals \<^verbatim>\<open>i\<close>, \<^verbatim>\<open>v2\<close> and \<^verbatim>\<open>result\<close> of \<^verbatim>\<open>unwrap_loops\<close>.\<close>

record locals_1 =
  i_1 :: int32
  v2_1 :: int32
  result_1 :: int32

datatype label = LABEL_x2B0 | LABEL_x379

text \<open>
  Lines 24-25, the test in front of the retry loop:
  \<^verbatim>\<open>if (!_InterlockedCompareExchange(&g_mutex.SpinCount, 1, 0)) goto LABEL_x379;\<close>
  and control falls through to \<^verbatim>\<open>LABEL_x2B0\<close> otherwise. \<open>r\<close> is what the call returned;
  \<open>priming_condition r\<close> is the value of the condition of the \<^verbatim>\<open>if\<close>, the negation \<^verbatim>\<open>!\<close>
  of the result, and the \<^verbatim>\<open>goto\<close> is taken when it holds.
\<close>

definition priming_cas :: event_1 where
  "priming_cas = InterlockedCompareExchange G_mutex_SpinCount 1 0"

definition priming_condition :: "int32 \<Rightarrow> bool" where
  "priming_condition r = (\<not> (r \<noteq> 0))"

definition priming_check :: "int32 \<Rightarrow> label" where
  "priming_check r = (if priming_condition r then LABEL_x379 else LABEL_x2B0)"

text \<open>
  Lines 35-38, the test at the latch:
  \<^verbatim>\<open>if (_InterlockedCompareExchange(&g_mutex.SpinCount, 1, 0)) goto LABEL_x2B0;\<close>
  and control falls through to \<^verbatim>\<open>LABEL_x379\<close> otherwise. \<open>latch_condition r\<close> is the value
  of the condition of the \<^verbatim>\<open>if\<close>, the result itself, and the \<^verbatim>\<open>goto\<close> is taken when it
  holds.
\<close>

definition latch_cas :: event_1 where
  "latch_cas = InterlockedCompareExchange G_mutex_SpinCount 1 0"

definition latch_condition :: "int32 \<Rightarrow> bool" where
  "latch_condition r = (r \<noteq> 0)"

definition latch_check :: "int32 \<Rightarrow> label" where
  "latch_check r = (if latch_condition r then LABEL_x2B0 else LABEL_x379)"

text \<open>
  Line 34: the argument \<^verbatim>\<open>v2++ >= 0x20\<close> of \<^verbatim>\<open>unk_1802CCC58\<close>, a signed comparison of the
  value \<^verbatim>\<open>v2\<close> has before the increment; its value is the \<^verbatim>\<open>int\<close> 1 or 0.
\<close>

definition backoff_arg :: "int32 \<Rightarrow> int32" where
  "backoff_arg v2 = (if 0x20 \<le>s v2 then 1 else 0)"

text \<open>
  The body of \<^verbatim>\<open>for (i = 0;; i = 2)\<close>, lines 15-39. \<open>while_1\<close> is the head of the inner
  \<^verbatim>\<open>while (1)\<close> (lines 19-25), \<open>goto_1\<close> is the code at the two labels
  (\<^verbatim>\<open>LABEL_x2B0: i = 1;\<close> at the end of the \<^verbatim>\<open>while\<close> body, and \<^verbatim>\<open>LABEL_x379:;\<close> at the end
  of the \<^verbatim>\<open>for\<close> body, which is followed by the step \<^verbatim>\<open>i = 2\<close>), and \<open>after_while_1\<close> is
  the code behind the \<^verbatim>\<open>while\<close> (lines 31-36).

  What \<^verbatim>\<open>_InterlockedCompareExchange\<close> returns depends on the other threads: \<open>rs\<close> is
  the list of the values its successive calls return (a \<^verbatim>\<open>long\<close>, of which the function
  only tests whether it is 0). A run that has issued a call for
  which \<open>rs\<close> holds no value has not returned: its result is \<open>None\<close>. A run that
  returns has the result \<open>Some\<close> of the returned \<^verbatim>\<open>__int64\<close>.
\<close>

function while_1 :: "int32 list \<Rightarrow> locals_1 \<Rightarrow> event_1 list \<times> int64 option"
  and goto_1 :: "label \<Rightarrow> int32 list \<Rightarrow> locals_1 \<Rightarrow> event_1 list \<times> int64 option"
  and after_while_1 :: "int32 list \<Rightarrow> locals_1 \<Rightarrow> event_1 list \<times> int64 option"
where
  "while_1 rs s =
     (let s = s\<lparr>result_1 := i_1 s\<rparr> in
      if i_1 s \<noteq> 0 then after_while_1 rs s
      else
        let s = s\<lparr>v2_1 := 0\<rparr> in
        emit priming_cas
          (case rs of
             [] \<Rightarrow> ([], None)
           | r # rs' \<Rightarrow> goto_1 (priming_check r) rs' s))"
| "goto_1 LABEL_x2B0 rs s = while_1 rs (s\<lparr>i_1 := 1\<rparr>)"
| "goto_1 LABEL_x379 rs s = while_1 rs (s\<lparr>i_1 := 2\<rparr>)"
| "after_while_1 rs s =
     (if i_1 s \<noteq> 1 then ([], Some (scast (result_1 s)))
      else
        let arg = backoff_arg (v2_1 s);
            s = s\<lparr>v2_1 := v2_1 s + 1\<rparr>
        in emit (Unk_1802CCC58 arg)
             (emit latch_cas
                (case rs of
                   [] \<Rightarrow> ([], None)
                 | r # rs' \<Rightarrow> goto_1 (latch_check r) rs' s)))"
  by pat_completeness auto
termination
  by (relation "measure (\<lambda>x. case x of
        Inl (rs, s) \<Rightarrow> 3 * length rs + 1
      | Inr (Inl (l, rs, s)) \<Rightarrow> 3 * length rs + 2
      | Inr (Inr (rs, s)) \<Rightarrow> 3 * length rs)") auto

text \<open>
  \<^verbatim>\<open>__int64 unwrap_loops()\<close>. The locals are not initialised by their declarations:
  \<open>uninit\<close> is whatever they hold on entry, and the \<^verbatim>\<open>for\<close> starts with \<^verbatim>\<open>i = 0\<close>.
\<close>

definition unwrap_loops :: "int32 list \<Rightarrow> locals_1 \<Rightarrow> event_1 list \<times> int64 option" where
  "unwrap_loops rs uninit = while_1 rs (uninit\<lparr>i_1 := 0\<rparr>)"

text \<open>The arguments of the calls of \<^verbatim>\<open>unk_1802CCC58\<close> in a run, in order.\<close>

fun backoff_args :: "event_1 list \<Rightarrow> int32 list" where
  "backoff_args [] = []"
| "backoff_args (Unk_1802CCC58 a # es) = a # backoff_args es"
| "backoff_args (_ # es) = backoff_args es"

section \<open>\<^verbatim>\<open>unwrap_loops_2\<close>: the capacity growth\<close>

text \<open>
  The only external call of the function, \<^verbatim>\<open>sub_1800D3BF0(int, int, int, int, __int64)\<close>,
  with its five arguments.
\<close>

datatype call_2 = Sub_1800D3BF0 int32 int32 int32 int32 int64

text \<open>The locals \<^verbatim>\<open>i\<close>, \<^verbatim>\<open>v9\<close>, \<^verbatim>\<open>v6\<close> and \<^verbatim>\<open>result\<close> of \<^verbatim>\<open>unwrap_loops_2\<close>.\<close>

record locals_2 =
  i_2 :: int32
  v9_2 :: int32
  v6_2 :: int32
  result_2 :: int32

text \<open>Line 69: \<^verbatim>\<open>v6 = v9 + (v9 >> 1);\<close> on \<^verbatim>\<open>int\<close>.\<close>

definition growth :: "int32 \<Rightarrow> int32" where
  "growth v9 = v9 + signed_drop_bit 1 v9"

text \<open>Lines 70-71: \<^verbatim>\<open>if (v6 <= n8) v6 = n8;\<close> where \<^verbatim>\<open>n8\<close> is unsigned, so the test is unsigned.\<close>

definition clamp_requested :: "uint32 \<Rightarrow> int32 \<Rightarrow> int32" where
  "clamp_requested n8 v6 = (if v6 \<le> n8 then n8 else v6)"

text \<open>Lines 73-74: \<^verbatim>\<open>if (v6 < 9) v6 = 8;\<close> on \<^verbatim>\<open>int\<close>, so the test is signed.\<close>

definition clamp_floor :: "int32 \<Rightarrow> int32" where
  "clamp_floor v6 = (if v6 <s 9 then 8 else v6)"

text \<open>
  The body of \<^verbatim>\<open>for (i = 0;; i = 1)\<close>, lines 51-77. \<open>while_2\<close> is the head of the inner
  \<^verbatim>\<open>while (1)\<close> (lines 53-64), \<open>after_while_2\<close> is the code behind it (lines 66-76) followed
  by the step \<^verbatim>\<open>i = 1\<close> of the \<^verbatim>\<open>for\<close>. \<open>dword a\<close> is the \<^verbatim>\<open>_DWORD\<close> that memory holds at
  address \<open>a\<close>. The result is the list of external calls and the returned \<^verbatim>\<open>__int64\<close>.
  The function reads memory once, before its only call, so what the call does to memory
  does not enter.
\<close>

function while_2 ::
    "(int64 \<Rightarrow> uint32) \<Rightarrow> uint32 \<Rightarrow> int64 \<Rightarrow> locals_2 \<Rightarrow> call_2 list \<times> int64"
  and after_while_2 ::
    "(int64 \<Rightarrow> uint32) \<Rightarrow> uint32 \<Rightarrow> int64 \<Rightarrow> locals_2 \<Rightarrow> call_2 list \<times> int64"
where
  "while_2 dword n8 a2 s =
     (let s = s\<lparr>result_2 := i_2 s\<rparr> in
      if i_2 s \<noteq> 0 then after_while_2 dword n8 a2 s
      else
        let s = s\<lparr>v9_2 := dword (a2 + 0x14)\<rparr> in
        if n8 \<le> v9_2 s then while_2 dword n8 a2 (s\<lparr>i_2 := 1\<rparr>)
        else while_2 dword n8 a2 (s\<lparr>i_2 := 2\<rparr>))"
| "after_while_2 dword n8 a2 s =
     (if i_2 s \<noteq> 2 then ([], scast (result_2 s))
      else
        let s = s\<lparr>v6_2 := growth (v9_2 s)\<rparr>;
            s = s\<lparr>v6_2 := clamp_requested n8 (v6_2 s)\<rparr>;
            s = s\<lparr>v6_2 := clamp_floor (v6_2 s)\<rparr>
        in emit (Sub_1800D3BF0 6 0x4D 0x3B (v6_2 s) a2)
             (while_2 dword n8 a2 (s\<lparr>i_2 := 1\<rparr>)))"
  by pat_completeness auto
termination
  by (relation "measure (\<lambda>x. case x of
        Inl (_, _, _, s) \<Rightarrow> (if i_2 s = 0 then 5 else if i_2 s = 2 then 3 else 1)
      | Inr (_, _, _, s) \<Rightarrow> (if i_2 s = 2 then 2 else 0))") auto

text \<open>
  \<^verbatim>\<open>__int64 unwrap_loops_2(unsigned int n8, __int64 a2, int n0x4E, int n0x5F)\<close>. The locals
  are not initialised by their declarations: \<open>uninit\<close> is whatever they hold on entry, and
  the \<^verbatim>\<open>for\<close> starts with \<^verbatim>\<open>i = 0\<close>.
\<close>

definition unwrap_loops_2 ::
  "(int64 \<Rightarrow> uint32) \<Rightarrow> locals_2 \<Rightarrow> uint32 \<Rightarrow> int64 \<Rightarrow> int32 \<Rightarrow> int32 \<Rightarrow> call_2 list \<times> int64" where
  "unwrap_loops_2 dword uninit n8 a2 n0x4E n0x5F = while_2 dword n8 a2 (uninit\<lparr>i_2 := 0\<rparr>)"

text \<open>
  The two clamps in the order of the source, and in the other order. The second
  composition is not in the source: it is the reordering the specification warns about.
\<close>

definition clamps_implemented :: "uint32 \<Rightarrow> int32 \<Rightarrow> int32" where
  "clamps_implemented n8 v6 = clamp_floor (clamp_requested n8 v6)"

definition clamps_reversed :: "uint32 \<Rightarrow> int32 \<Rightarrow> int32" where
  "clamps_reversed n8 v6 = clamp_requested n8 (clamp_floor v6)"

text \<open>
  The quotient of C on \<^verbatim>\<open>int\<close>, which truncates towards zero, and the growth as the
  specification words it: \<open>old-size + old-size/2\<close>.
\<close>

definition c_div :: "int32 \<Rightarrow> int32 \<Rightarrow> int32" where
  "c_div a b = word_of_int (sint a sdiv sint b)"

definition growth_spec :: "int32 \<Rightarrow> int32" where
  "growth_spec old_size = old_size + c_div old_size 2"

section \<open>\<^verbatim>\<open>unwrap_loops_3\<close>: the region with wind count 1\<close>

text \<open>
  The external \<^verbatim>\<open>sub_180221640(unsigned __int64, int, int, unsigned __int64, int, int)\<close>
  with its six arguments.
\<close>

datatype call_3 = Sub_180221640 uint64 int32 int32 uint64 int32 int32

text \<open>
  A state of a run of \<^verbatim>\<open>unwrap_loops_3\<close>: the line of the source that control has
  reached, the locals \<^verbatim>\<open>v5\<close>, \<^verbatim>\<open>v10\<close>, \<^verbatim>\<open>v7\<close>, \<^verbatim>\<open>v8\<close> and \<^verbatim>\<open>v9\<close>, memory, where
  \<open>qword s a\<close> is the \<^verbatim>\<open>_QWORD\<close> at address \<open>a\<close>, and the calls of \<^verbatim>\<open>sub_180221640\<close>
  that the run has made so far, in order. A run is the list of its states.
\<close>

record state_3 =
  line :: nat
  v5_3 :: int32
  v10_3 :: int32
  v7_3 :: int32
  v8_3 :: int32
  v9_3 :: int32
  qword :: "int64 \<Rightarrow> uint64"
  calls_3 :: "call_3 list"

text \<open>
  Lines 98-104 and 106-112: the two calls. The index \<^verbatim>\<open>v10 << 6\<close> is computed on \<^verbatim>\<open>int\<close>
  and sign-extended when it is added to the \<^verbatim>\<open>__int64\<close> \<^verbatim>\<open>a5\<close>.
\<close>

definition first_call :: "int64 \<Rightarrow> state_3 \<Rightarrow> call_3" where
  "first_call a5 s =
     Sub_180221640
       (qword s (a5 + scast (push_bit 6 (v10_3 s)) + 0x28))
       0xA
       0x5E
       (qword s (a5 + scast (push_bit 6 (v10_3 s)) + 0x30))
       0x45
       (v7_3 s)"

definition second_call :: "int64 \<Rightarrow> state_3 \<Rightarrow> call_3" where
  "second_call a5 s =
     Sub_180221640
       (qword s (a5 + scast (push_bit 6 (v10_3 s)) + 0x10))
       0x62
       0x2A
       (qword s (a5 + scast (push_bit 6 (v10_3 s)) + 0x18))
       0x19
       (v8_3 s)"

text \<open>
  A call of the external function: \<open>sub_180221640 c m\<close> is the memory that the call \<open>c\<close>
  leaves when it is entered with the memory \<open>m\<close>. The call is made on the memory of the
  state and is entered in the list of the calls made.
\<close>

definition invoke_3 ::
  "(call_3 \<Rightarrow> (int64 \<Rightarrow> uint64) \<Rightarrow> (int64 \<Rightarrow> uint64)) \<Rightarrow> call_3 \<Rightarrow> state_3 \<Rightarrow> state_3" where
  "invoke_3 sub_180221640 c s =
     s\<lparr>qword := sub_180221640 c (qword s), calls_3 := calls_3 s @ [c]\<rparr>"

text \<open>
  One pass through the body of the \<^verbatim>\<open>for\<close> of lines 95-116, from the state \<open>s95\<close> in
  which control is at line 95, where \<^verbatim>\<open>HIDWORD(v7) = 2\<close> is both the initialisation and
  the step of the \<^verbatim>\<open>for\<close>, to the state in which control is at the test of line 114.

  Two things the function uses are not in the source file and are parameters here.
  \<open>set_HIDWORD x hi\<close> is the value the \<^verbatim>\<open>int\<close> \<open>x\<close> has after \<^verbatim>\<open>HIDWORD(x) = hi\<close>: the
  macro comes from \<^verbatim>\<open>polyfill.h\<close>, and the store is taken to change no other local.
  \<open>sub_180221640\<close> is what the external function does to memory; its calls are taken to
  return.
\<close>

definition iteration_3 ::
  "(int32 \<Rightarrow> int32 \<Rightarrow> int32) \<Rightarrow> (call_3 \<Rightarrow> (int64 \<Rightarrow> uint64) \<Rightarrow> (int64 \<Rightarrow> uint64)) \<Rightarrow>
   int64 \<Rightarrow> state_3 \<Rightarrow> state_3 list" where
  "iteration_3 set_HIDWORD sub_180221640 a5 s95 =
     (let s97 = s95\<lparr>v7_3 := set_HIDWORD (v7_3 s95) 2, line := 97\<rparr>;
          s98 = s97\<lparr>v9_3 := v10_3 s97, line := 98\<rparr>;
          s105 = (invoke_3 sub_180221640 (first_call a5 s98) s98)\<lparr>line := 105\<rparr>;
          s106 = s105\<lparr>v8_3 := set_HIDWORD (v8_3 s105) 3, line := 106\<rparr>;
          s113 = (invoke_3 sub_180221640 (second_call a5 s106) s106)\<lparr>line := 113\<rparr>;
          s114 = s113\<lparr>v10_3 := v10_3 s113 + 1, line := 114\<rparr>
      in [s95, s97, s98, s105, s106, s113, s114])"

text \<open>
  The \<^verbatim>\<open>for\<close> of lines 95-116: after a pass, \<^verbatim>\<open>if (v9 + 1 == v5) break;\<close> on \<^verbatim>\<open>int\<close>
  either reaches the \<^verbatim>\<open>break\<close> of line 115 or goes back to line 95. The increment of
  \<^verbatim>\<open>v10\<close> wraps around, so the test succeeds after at most \<open>2 ^ 32\<close> passes.
\<close>

function loop_3 ::
  "(int32 \<Rightarrow> int32 \<Rightarrow> int32) \<Rightarrow> (call_3 \<Rightarrow> (int64 \<Rightarrow> uint64) \<Rightarrow> (int64 \<Rightarrow> uint64)) \<Rightarrow>
   int64 \<Rightarrow> state_3 \<Rightarrow> state_3 list"
where
  "loop_3 set_HIDWORD sub_180221640 a5 s95 =
     (let pass = iteration_3 set_HIDWORD sub_180221640 a5 s95;
          s114 = last pass
      in pass @
         (if v9_3 s114 + 1 = v5_3 s114 then [s114\<lparr>line := 115\<rparr>]
          else loop_3 set_HIDWORD sub_180221640 a5 (s114\<lparr>line := 95\<rparr>)))"
  by pat_completeness auto
termination
proof (relation "measure (\<lambda>(h, sub, a5, s). unat (v5_3 s - v10_3 s - 1))")
  show "wf (measure (\<lambda>(h, sub, a5, s). unat (v5_3 s - v10_3 s - 1)))" by simp
next
  fix set_HIDWORD sub_180221640 a5 s95 pass s114
  assume a: "pass = iteration_3 set_HIDWORD sub_180221640 a5 s95" "s114 = last pass"
    "v9_3 s114 + 1 \<noteq> v5_3 s114"
  have s: "v9_3 s114 = v10_3 s95" "v5_3 s114 = v5_3 s95" "v10_3 s114 = v10_3 s95 + 1"
    using a(1,2) by (simp_all add: iteration_3_def invoke_3_def Let_def)
  have "v10_3 s95 + 1 \<noteq> v5_3 s95" using a(3) s by simp
  moreover have "v5_3 s95 - v10_3 s95 - 1 = v5_3 s95 - (v10_3 s95 + 1)" by simp
  ultimately have "v5_3 s95 - v10_3 s95 - 1 \<noteq> 0"
    by (simp only: right_minus_eq)
  then have "unat (v5_3 s95 - v10_3 s95 - 1 - 1) < unat (v5_3 s95 - v10_3 s95 - 1)"
    by (rule measure_unat)
  moreover have "v5_3 s95 - (v10_3 s95 + 1) - 1 = v5_3 s95 - v10_3 s95 - 1 - 1" by simp
  ultimately show "((set_HIDWORD, sub_180221640, a5, s114\<lparr>line := 95\<rparr>),
                    (set_HIDWORD, sub_180221640, a5, s95))
        \<in> measure (\<lambda>(h, sub, a5, s). unat (v5_3 s - v10_3 s - 1))"
    using s by simp
qed

text \<open>
  \<^verbatim>\<open>__int64 unwrap_loops_3(int n0x5C, unsigned int a2, int n0x53, int n9, __int64 a5)\<close>.
  \<open>entry\<close> is the state on entry: the locals hold whatever they hold, and \<open>qword entry\<close>
  is the memory; no call has been made. The result is the run and the returned
  \<^verbatim>\<open>__int64\<close>.
\<close>

definition unwrap_loops_3 ::
  "(int32 \<Rightarrow> int32 \<Rightarrow> int32) \<Rightarrow> (call_3 \<Rightarrow> (int64 \<Rightarrow> uint64) \<Rightarrow> (int64 \<Rightarrow> uint64)) \<Rightarrow>
   state_3 \<Rightarrow> int32 \<Rightarrow> uint32 \<Rightarrow> int32 \<Rightarrow> int32 \<Rightarrow> int64 \<Rightarrow> state_3 list \<times> int64" where
  "unwrap_loops_3 set_HIDWORD sub_180221640 entry n0x5C a2 n0x53 n9 a5 =
     (let s91 = entry\<lparr>calls_3 := [], line := 91\<rparr>;
          s92 = s91\<lparr>v5_3 := a2, line := 92\<rparr>
      in if a2 \<noteq> 0 then
           let s94 = s92\<lparr>line := 94\<rparr>;
               s95 = s94\<lparr>v10_3 := 0, line := 95\<rparr>;
               body = loop_3 set_HIDWORD sub_180221640 a5 s95
           in ([s91, s92, s94] @ body @ [(last body)\<lparr>line := 119\<rparr>], 4)
         else ([s91, s92, s92\<lparr>line := 119\<rparr>], 4))"

text \<open>
  The region that \<^verbatim>\<open>if (a2)\<close> guards is the block of lines 93-117. A run crosses its
  border wherever one of two successive states is at a line of the region and the other
  is not; \<open>crossings\<close> lists these pairs of lines in the order of the run.
\<close>

definition in_region :: "nat \<Rightarrow> bool" where
  "in_region n = (93 \<le> n \<and> n \<le> 117)"

fun crossings :: "nat list \<Rightarrow> (nat \<times> nat) list" where
  "crossings (p # q # ns) =
     (if in_region p \<noteq> in_region q then [(p, q)] else []) @ crossings (q # ns)"
| "crossings _ = []"

text \<open>
  The states in which control is at one of the two calls of \<^verbatim>\<open>sub_180221640\<close>, and the
  call that the source makes there.
\<close>

definition at_call :: "state_3 \<Rightarrow> bool" where
  "at_call s = (line s = 98 \<or> line s = 106)"

definition call_at :: "int64 \<Rightarrow> state_3 \<Rightarrow> call_3" where
  "call_at a5 s = (if line s = 98 then first_call a5 s else second_call a5 s)"

text \<open>The three literal arguments of a call: the second, the third and the fifth.\<close>

fun literal_args :: "call_3 \<Rightarrow> int32 \<times> int32 \<times> int32" where
  "literal_args (Sub_180221640 p1 p2 p3 p4 p5 p6) = (p2, p3, p5)"

section \<open>The statements of \<^verbatim>\<open>unwrap_loops\<close> and \<^verbatim>\<open>unwrap_loops_2\<close> as syntax\<close>

text \<open>
  Where a variable is read and written is a property of the text of a function. The
  expressions and statements that the two functions use:
\<close>

datatype expr =
    EVar string
  | ELit int
  | ENot expr
  | EPostInc string
  | ENe expr expr
  | EGe expr expr
  | ELe expr expr
  | ELt expr expr
  | EAdd expr expr
  | EShr expr expr
  | EDeref expr
  | ECast string expr
  | EAddrOf expr
  | EMember expr string
  | ECall string "expr list"

text \<open>
  \<open>SFor init step body\<close> is \<^verbatim>\<open>for (init;; step) body\<close>: the loops of the source have no
  condition. \<open>SIf c ss []\<close> is an \<^verbatim>\<open>if\<close> without \<^verbatim>\<open>else\<close>.
\<close>

datatype stmt =
    SAssign string expr
  | SExpr expr
  | SIf expr "stmt list" "stmt list"
  | SWhile expr "stmt list"
  | SFor stmt stmt "stmt list"
  | SBreak
  | SGoto string
  | SLabel string
  | SReturn expr

text \<open>Lines 15-41 of the source.\<close>

definition unwrap_loops_body :: "stmt list" where
  "unwrap_loops_body =
     [SFor (SAssign ''i'' (ELit 0)) (SAssign ''i'' (ELit 2))
        [SWhile (ELit 1)
           [SAssign ''result'' (EVar ''i''),
            SIf (EVar ''i'') [SBreak] [],
            SAssign ''v2'' (ELit 0),
            SIf (ENot (ECall ''_InterlockedCompareExchange''
                         [ECast ''volatile signed __int32 *''
                            (EAddrOf (EMember (EVar ''g_mutex'') ''SpinCount'')),
                          ELit 1, ELit 0]))
                [SGoto ''LABEL_x379''] [],
            SLabel ''LABEL_x2B0'',
            SAssign ''i'' (ELit 1)],
         SIf (ENe (EVar ''i'') (ELit 1)) [SBreak] [],
         SExpr (ECall ''unk_1802CCC58'' [EGe (EPostInc ''v2'') (ELit 0x20)]),
         SIf (ECall ''_InterlockedCompareExchange''
                [ECast ''volatile signed __int32 *''
                   (EAddrOf (EMember (EVar ''g_mutex'') ''SpinCount'')),
                 ELit 1, ELit 0])
             [SGoto ''LABEL_x2B0''] [],
         SLabel ''LABEL_x379''],
      SReturn (EVar ''result'')]"

text \<open>Lines 51-79 of the source.\<close>

definition unwrap_loops_2_body :: "stmt list" where
  "unwrap_loops_2_body =
     [SFor (SAssign ''i'' (ELit 0)) (SAssign ''i'' (ELit 1))
        [SWhile (ELit 1)
           [SAssign ''result'' (EVar ''i''),
            SIf (EVar ''i'') [SBreak] [],
            SAssign ''v9'' (EDeref (ECast ''_DWORD *'' (EAdd (EVar ''a2'') (ELit 0x14)))),
            SIf (EGe (EVar ''v9'') (EVar ''n8''))
                [SAssign ''i'' (ELit 1)]
                [SAssign ''i'' (ELit 2)]],
         SIf (ENe (EVar ''i'') (ELit 2)) [SBreak] [],
         SAssign ''v6'' (EAdd (EVar ''v9'') (EShr (EVar ''v9'') (ELit 1))),
         SIf (ELe (EVar ''v6'') (EVar ''n8'')) [SAssign ''v6'' (EVar ''n8'')] [],
         SIf (ELt (EVar ''v6'') (ELit 9)) [SAssign ''v6'' (ELit 8)] [],
         SExpr (ECall ''sub_1800D3BF0''
                  [ELit 6, ELit 0x4D, ELit 0x3B, EVar ''v6'', EVar ''a2''])],
      SReturn (EVar ''result'')]"

text \<open>The call that both tests of \<^verbatim>\<open>unwrap_loops\<close> make.\<close>

definition cas_expr :: expr where
  "cas_expr =
     ECall ''_InterlockedCompareExchange''
       [ECast ''volatile signed __int32 *'' (EAddrOf (EMember (EVar ''g_mutex'') ''SpinCount'')),
        ELit 1, ELit 0]"

text \<open>
  Whether an expression reads the variable \<open>x\<close>. Taking the address of an object does
  not read it.
\<close>

fun reads :: "string \<Rightarrow> expr \<Rightarrow> bool" where
  "reads x (EVar y) = (x = y)"
| "reads x (ELit n) = False"
| "reads x (ENot e) = reads x e"
| "reads x (EPostInc y) = (x = y)"
| "reads x (ENe a b) = (reads x a \<or> reads x b)"
| "reads x (EGe a b) = (reads x a \<or> reads x b)"
| "reads x (ELe a b) = (reads x a \<or> reads x b)"
| "reads x (ELt a b) = (reads x a \<or> reads x b)"
| "reads x (EAdd a b) = (reads x a \<or> reads x b)"
| "reads x (EShr a b) = (reads x a \<or> reads x b)"
| "reads x (EDeref e) = reads x e"
| "reads x (ECast t e) = reads x e"
| "reads x (EAddrOf e) = False"
| "reads x (EMember e f) = reads x e"
| "reads x (ECall f es) = list_ex (reads x) es"

text \<open>The expressions that the assignments to \<open>x\<close> store.\<close>

fun writes_of :: "string \<Rightarrow> stmt \<Rightarrow> expr list" where
  "writes_of x (SAssign y e) = (if x = y then [e] else [])"
| "writes_of x (SIf c ss ts) = concat (map (writes_of x) ss) @ concat (map (writes_of x) ts)"
| "writes_of x (SWhile c ss) = concat (map (writes_of x) ss)"
| "writes_of x (SFor init step ss) =
     writes_of x init @ concat (map (writes_of x) ss) @ writes_of x step"
| "writes_of x _ = []"

text \<open>The conditions of the branches (\<^verbatim>\<open>if\<close> and \<^verbatim>\<open>while\<close>), in the order of the text.\<close>

fun conditions :: "stmt \<Rightarrow> expr list" where
  "conditions (SIf c ss ts) = c # concat (map conditions ss) @ concat (map conditions ts)"
| "conditions (SWhile c ss) = c # concat (map conditions ss)"
| "conditions (SFor init step ss) = concat (map conditions ss)"
| "conditions _ = []"

text \<open>
  The statements that read \<open>x\<close> anywhere but in the condition of a branch: an assignment,
  an expression statement or a \<^verbatim>\<open>return\<close> whose expression reads \<open>x\<close>.
\<close>

fun other_reads_of :: "string \<Rightarrow> stmt \<Rightarrow> stmt list" where
  "other_reads_of x (SAssign y e) = (if reads x e then [SAssign y e] else [])"
| "other_reads_of x (SExpr e) = (if reads x e then [SExpr e] else [])"
| "other_reads_of x (SReturn e) = (if reads x e then [SReturn e] else [])"
| "other_reads_of x (SIf c ss ts) =
     concat (map (other_reads_of x) ss) @ concat (map (other_reads_of x) ts)"
| "other_reads_of x (SWhile c ss) = concat (map (other_reads_of x) ss)"
| "other_reads_of x (SFor init step ss) =
     other_reads_of x init @ concat (map (other_reads_of x) ss) @ other_reads_of x step"
| "other_reads_of x _ = []"

text \<open>The expressions that the function returns.\<close>

fun returns :: "stmt \<Rightarrow> expr list" where
  "returns (SReturn e) = [e]"
| "returns (SIf c ss ts) = concat (map returns ss) @ concat (map returns ts)"
| "returns (SWhile c ss) = concat (map returns ss)"
| "returns (SFor init step ss) = concat (map returns ss)"
| "returns _ = []"

text \<open>
  The control variable of the specification, in its words: an integer "whose only reads
  are in branch conditions and whose only writes are to small literal constants", the
  small literals being 0, 1 and 2.
\<close>

definition small_literal :: "expr \<Rightarrow> bool" where
  "small_literal e = (e = ELit 0 \<or> e = ELit 1 \<or> e = ELit 2)"

definition control_variable :: "string \<Rightarrow> stmt list \<Rightarrow> bool" where
  "control_variable x body =
     (list_all small_literal (concat (map (writes_of x) body)) \<and>
      concat (map (other_reads_of x) body) = [])"

section \<open>Facts about 32-bit words\<close>

lemma sint_32: "sint (w::32 word) = (if uint w < 2^31 then uint w else uint w - 2^32)"
proof -
  define u where "u = uint w"
  have b: "0 \<le> u" "u < 2^32" using uint_bounded [of w] by (simp_all add: u_def)
  have e: "sint w = (u + 2^31) mod 2^32 - 2^31"
    by (simp add: u_def sint_uint signed_take_bit_eq_take_bit_shift take_bit_eq_mod)
  show ?thesis
  proof (cases "u < 2^31")
    case True
    then have "(u + 2^31) mod 2^32 = u + 2^31"
      using b by (intro mod_pos_pos_trivial) simp_all
    with True e show ?thesis by (simp add: u_def)
  next
    case False
    then have "(u + 2^31 - 2^32) mod 2^32 = u + 2^31 - 2^32"
      using b by (intro mod_pos_pos_trivial) simp_all
    moreover have "(u + 2^31 - 2^32) mod 2^32 = (u + 2^31) mod 2^32"
      by (rule minus_mod_self2)
    ultimately show ?thesis using False e by (simp add: u_def)
  qed
qed

lemma signed_drop_bit_1: "signed_drop_bit 1 (w::32 word) = word_of_int (sint w div 2)"
proof -
  have "sint (signed_drop_bit 1 w) = sint w div 2"
    by (simp add: sint_signed_drop_bit_eq drop_bit_eq_div)
  then have "word_of_int (sint (signed_drop_bit 1 w)) = (word_of_int (sint w div 2) :: 32 word)"
    by simp
  then show ?thesis by simp
qed

lemma growth_floor: "growth v9 = v9 + word_of_int (sint v9 div 2)"
  by (simp only: growth_def signed_drop_bit_1)

lemma sint_range_32: "- (2^31) \<le> sint (w::32 word) \<and> sint w < 2^31"
  using sint_ge [of w] sint_lt [of w] by simp

lemma sint_word_of_int_32:
  assumes "- (2^31) \<le> a" "a < 2^31"
  shows "sint (word_of_int a :: 32 word) = a"
proof -
  have "(a + 2^31) mod 2^32 = a + 2^31"
    using assms by (intro mod_pos_pos_trivial) simp_all
  then show ?thesis by (simp add: int_word_sint)
qed

lemma word_of_int_inj_signed:
  assumes "- (2^31) \<le> a" "a < 2^31" "- (2^31) \<le> b" "b < 2^31"
  shows "((word_of_int a :: 32 word) = word_of_int b) = (a = b)"
  using sint_word_of_int_32 [OF assms(1,2)] sint_word_of_int_32 [OF assms(3,4)]
  by metis

lemma even_sint_32: "even (sint (w::32 word)) = even w"
proof -
  have "bit (sint w) 0 = bit w 0" by (simp add: bit_sint_iff)
  then have "odd (sint w) = odd w" by (simp only: bit_0)
  then show ?thesis by blast
qed

lemma growth_spec_iff: "(growth v9 = growth_spec v9) = (0 \<le>s v9 \<or> even v9)"
proof -
  let ?k = "sint v9"
  have r: "- (2^31) \<le> ?k" "?k < 2^31" using sint_range_32 [of v9] by simp_all
  have d: "- (2^31) \<le> ?k div 2" "?k div 2 < 2^31" using r by simp_all
  have s: "- (2^31) \<le> ?k sdiv 2" "?k sdiv 2 < 2^31"
    using r d by (auto simp add: signed_divide_int_eq_divide_int sgn_if)
  have "(growth v9 = growth_spec v9) = ((word_of_int (?k div 2) :: 32 word) = word_of_int (?k sdiv 2))"
    by (simp add: growth_floor growth_spec_def c_div_def)
  also have "\<dots> = (?k div 2 = ?k sdiv 2)"
    by (rule word_of_int_inj_signed [OF d s])
  also have "\<dots> = (0 \<le> ?k \<or> even ?k)"
    by (auto simp add: signed_divide_int_eq_divide_int sgn_if)
  also have "\<dots> = (0 \<le>s v9 \<or> even v9)"
    by (simp add: word_sle_eq even_sint_32)
  finally show ?thesis .
qed

lemma sless_0_32: "((g::32 word) <s 0) = (2^31 \<le> uint g)"
  using uint_bounded [of g] by (auto simp add: word_sless_alt sint_32)

lemma sless_9_32: "((g::32 word) <s 9) = (uint g < 9 \<or> 2^31 \<le> uint g)"
  using uint_bounded [of g] by (auto simp add: word_sless_alt sint_32)

lemma uint_clamp_floor:
  "uint (clamp_floor g) = (if uint g < 9 \<or> 2^31 \<le> uint g then 8 else uint g)"
  by (simp add: clamp_floor_def sless_9_32 del: word_sless_no)

lemma uint_clamp_requested:
  "uint (clamp_requested n8 g) = (if uint g \<le> uint n8 then uint n8 else uint g)"
  by (simp add: clamp_requested_def word_le_def)

lemma clamps_differ_iff:
  "(clamps_reversed n8 g \<noteq> clamps_implemented n8 g) = (n8 <s 0 \<or> (g <s 0 \<and> 8 < n8))"
proof -
  have b: "uint n8 < 2^32" "uint g < 2^32"
    using uint_bounded [of n8] uint_bounded [of g] by simp_all
  have "(clamps_reversed n8 g \<noteq> clamps_implemented n8 g) =
        (uint (clamps_reversed n8 g) \<noteq> uint (clamps_implemented n8 g))"
    by (simp add: word_uint_eq_iff)
  also have "\<dots> = (2^31 \<le> uint n8 \<or> (2^31 \<le> uint g \<and> 8 < uint n8))"
    unfolding clamps_reversed_def clamps_implemented_def uint_clamp_floor uint_clamp_requested
    using b by auto
  also have "\<dots> = (n8 <s 0 \<or> (g <s 0 \<and> 8 < n8))"
    by (simp add: sless_0_32 word_less_def)
  finally show ?thesis .
qed

section \<open>Properties of \<^verbatim>\<open>unwrap_loops\<close>\<close>

lemma after_while_1_retry:
  "i_1 s = 1 \<Longrightarrow>
   after_while_1 rs s =
     (concat (map (\<lambda>k. [Unk_1802CCC58 (backoff_arg (v2_1 s + of_nat k)), latch_cas])
                  [0..<Suc (length (takeWhile (\<lambda>r. r \<noteq> 0) rs))]),
      if length (takeWhile (\<lambda>r. r \<noteq> 0) rs) < length rs then Some 2 else None)"
proof (induction rs arbitrary: s)
  case Nil
  then show ?case by (simp add: emit_def)
next
  case (Cons r rs)
  show ?case
  proof (cases "r = 0")
    case True
    with Cons.prems show ?thesis
      by (simp add: emit_def latch_check_def latch_condition_def Let_def)
  next
    case False
    let ?s = "s\<lparr>v2_1 := v2_1 s + 1, i_1 := 1, result_1 := 1\<rparr>"
    have step: "after_while_1 (r # rs) s =
        emit (Unk_1802CCC58 (backoff_arg (v2_1 s))) (emit latch_cas (after_while_1 rs ?s))"
      using Cons.prems False
      by (subst after_while_1.simps)
         (simp add: latch_check_def latch_condition_def Let_def del: after_while_1.simps)
    have ih: "after_while_1 rs ?s =
      (concat (map (\<lambda>k. [Unk_1802CCC58 (backoff_arg (v2_1 ?s + of_nat k)), latch_cas])
                  [0..<Suc (length (takeWhile (\<lambda>r. r \<noteq> 0) rs))]),
      if length (takeWhile (\<lambda>r. r \<noteq> 0) rs) < length rs then Some 2 else None)"
      by (rule Cons.IH) simp
    show ?thesis
      unfolding step ih using False
      by (simp add: emit_def map_upt_Suc add.assoc del: upt_Suc)
  qed
qed

lemma unwrap_loops_eq:
  "unwrap_loops rs uninit =
     (priming_cas #
        concat (map (\<lambda>k. [Unk_1802CCC58 (backoff_arg (of_nat k)), latch_cas])
                    [0..<length (takeWhile (\<lambda>r. r \<noteq> 0) rs)]),
      if length (takeWhile (\<lambda>r. r \<noteq> 0) rs) < length rs then Some 2 else None)"
proof (cases rs)
  case Nil
  then show ?thesis by (simp add: unwrap_loops_def emit_def Let_def)
next
  case (Cons r rs')
  show ?thesis
  proof (cases "r = 0")
    case True
    with Cons show ?thesis
      by (simp add: unwrap_loops_def emit_def priming_check_def priming_condition_def Let_def)
  next
    case False
    let ?s = "uninit\<lparr>v2_1 := 0, i_1 := 1, result_1 := 1\<rparr>"
    have "unwrap_loops rs uninit = emit priming_cas (after_while_1 rs' ?s)"
      using Cons False
      by (simp add: unwrap_loops_def priming_check_def priming_condition_def Let_def
            del: after_while_1.simps)
    also have "after_while_1 rs' ?s =
      (concat (map (\<lambda>k. [Unk_1802CCC58 (backoff_arg (v2_1 ?s + of_nat k)), latch_cas])
                  [0..<Suc (length (takeWhile (\<lambda>r. r \<noteq> 0) rs'))]),
       if length (takeWhile (\<lambda>r. r \<noteq> 0) rs') < length rs' then Some 2 else None)"
      by (rule after_while_1_retry) simp
    finally show ?thesis
      using Cons False by (simp add: emit_def del: upt_Suc)
  qed
qed

lemma takeWhile_shorter_iff:
  "(length (takeWhile (\<lambda>r. r \<noteq> 0) rs) < length rs) = ((0 :: int32) \<in> set rs)"
  by (induction rs) auto

lemma unwrap_loops_result:
  "snd (unwrap_loops rs uninit) = (if 0 \<in> set rs then Some 2 else None)"
  by (simp add: unwrap_loops_eq takeWhile_shorter_iff)

lemma sint_of_nat_32: "k < 2^31 \<Longrightarrow> sint (of_nat k :: 32 word) = int k"
proof -
  assume "k < 2^31"
  then have "int k < 2^31" by (simp add: of_nat_less_iff [of k "2^31", simplified])
  then have "sint (word_of_int (int k) :: 32 word) = int k"
    by (intro sint_word_of_int_32) simp_all
  then show ?thesis by simp
qed

lemma backoff_arg_of_nat:
  "k < 2^31 \<Longrightarrow> backoff_arg (of_nat k) = (if 32 \<le> k then 1 else 0)"
  by (simp add: backoff_arg_def word_sle_eq sint_of_nat_32)

text \<open>
  Claim C3. The spin loop of \<^verbatim>\<open>unwrap_loops\<close> calls \<^verbatim>\<open>_InterlockedCompareExchange\<close> on
  \<^verbatim>\<open>&g_mutex.SpinCount\<close> with exchange 1 and comparand 0, and loops back on each failure
  (each returned value that is not 0): the retry numbered \<open>k\<close>, counted from 0, calls
  \<^verbatim>\<open>unk_1802CCC58\<close> and then \<^verbatim>\<open>_InterlockedCompareExchange\<close> again. The retry counter
  \<^verbatim>\<open>v2\<close> is \<open>k\<close> at that call and is compared, as an \<^verbatim>\<open>int\<close>, with the literal 32: the
  argument of \<^verbatim>\<open>unk_1802CCC58\<close> is not 0 exactly when the counter is 32 or more. So it is 0
  on each of the retries 0 to 31, and 1 on every retry from 32 on, as far as the counter
  counts without overflow (\<open>k < 2 ^ 31\<close>).
\<close>

theorem spin_wait_backoff_threshold:
  "fst (unwrap_loops rs uninit) =
     InterlockedCompareExchange G_mutex_SpinCount 1 0 #
     concat (map (\<lambda>k. [Unk_1802CCC58 (backoff_arg (of_nat k)),
                        InterlockedCompareExchange G_mutex_SpinCount 1 0])
                 [0..<length (takeWhile (\<lambda>r. r \<noteq> 0) rs)]) \<and>
   (backoff_arg v2 \<noteq> 0) = (32 \<le> sint v2) \<and>
   (k < 32 \<longrightarrow> backoff_arg (of_nat k) = 0) \<and>
   (32 \<le> k \<and> k < 2^31 \<longrightarrow> backoff_arg (of_nat k) = 1)"
proof -
  have "fst (unwrap_loops rs uninit) =
     InterlockedCompareExchange G_mutex_SpinCount 1 0 #
     concat (map (\<lambda>k. [Unk_1802CCC58 (backoff_arg (of_nat k)),
                        InterlockedCompareExchange G_mutex_SpinCount 1 0])
                 [0..<length (takeWhile (\<lambda>r. r \<noteq> 0) rs)])"
    by (simp add: unwrap_loops_eq priming_cas_def latch_cas_def)
  moreover have "(backoff_arg v2 \<noteq> 0) = (32 \<le> sint v2)"
    by (simp add: backoff_arg_def word_sle_eq)
  moreover have "backoff_arg (of_nat k) = 0" if "k < 32"
    using that by (simp add: backoff_arg_of_nat)
  moreover have "backoff_arg (of_nat k) = 1" if "32 \<le> k" "k < 2^31"
    using that by (simp add: backoff_arg_of_nat)
  ultimately show ?thesis by blast
qed

theorem spin_wait_backoff_threshold_witness:
  "(31 :: nat) < 32 \<and> backoff_arg (of_nat 31) = 0 \<and>
   (32 :: nat) \<le> 32 \<and> (32 :: nat) < 2^31 \<and> backoff_arg (of_nat 32) = 1 \<and>
   backoff_args (fst (unwrap_loops (replicate 33 1 @ [0])
                        \<lparr>i_1 = 0x55, v2_1 = 0x66, result_1 = 0x77\<rparr>)) =
     replicate 32 0 @ [1]"
proof -
  let ?rs = "replicate 33 1 @ [0 :: int32]"
  let ?u = "\<lparr>i_1 = 0x55, v2_1 = 0x66, result_1 = 0x77\<rparr>"
  have low: "backoff_arg (of_nat 31) = 0"
    using spin_wait_backoff_threshold [of ?rs ?u 0 31] by simp
  have high: "backoff_arg (of_nat 32) = 1"
    using spin_wait_backoff_threshold [of ?rs ?u 0 32] by simp
  have run: "fst (unwrap_loops ?rs ?u) =
     InterlockedCompareExchange G_mutex_SpinCount 1 0 #
     concat (map (\<lambda>k. [Unk_1802CCC58 (backoff_arg (of_nat k)),
                        InterlockedCompareExchange G_mutex_SpinCount 1 0])
                 [0..<length (takeWhile (\<lambda>r. r \<noteq> 0) ?rs)])"
    using spin_wait_backoff_threshold [of ?rs ?u 0 0] by blast
  have "backoff_args
          (InterlockedCompareExchange G_mutex_SpinCount 1 0 #
           concat (map (\<lambda>k. [Unk_1802CCC58 (backoff_arg (of_nat k)),
                              InterlockedCompareExchange G_mutex_SpinCount 1 0])
                       [0..<length (takeWhile (\<lambda>r. r \<noteq> 0) ?rs)])) =
        replicate 32 0 @ [1]"
    by code_simp
  then have "backoff_args (fst (unwrap_loops ?rs ?u)) = replicate 32 0 @ [1]"
    by (simp only: run)
  with low high show ?thesis by simp
qed

text \<open>
  Claim C4, as stated, fails: the two condition expressions of \<^verbatim>\<open>unwrap_loops\<close> do not
  denote the same predicate, and the two tests do not both take their branch on the
  failure of the call. In the text the condition of line 24 is the negation of the
  condition of line 35. When the call succeeds (returns 0) the condition of line 24 holds
  and its \<^verbatim>\<open>goto\<close> is taken, and the condition of line 35 does not hold; when the call
  fails (returns 1, say) it is the other way round.
\<close>

theorem priming_and_latch_conditions_are_negations:
  "concat (map conditions unwrap_loops_body) ! 2 =
     ENot (concat (map conditions unwrap_loops_body) ! 4) \<and>
   concat (map conditions unwrap_loops_body) ! 2 \<noteq>
     concat (map conditions unwrap_loops_body) ! 4 \<and>
   priming_condition 0 \<and> \<not> latch_condition 0 \<and>
   \<not> priming_condition 1 \<and> latch_condition 1 \<and>
   priming_condition 0 \<noteq> latch_condition 0 \<and>
   priming_condition 1 \<noteq> latch_condition 1"
  by (simp add: unwrap_loops_body_def priming_condition_def latch_condition_def)

text \<open>
  Claim C4, amended. The test in front of the retry loop and the test at the latch of
  \<^verbatim>\<open>unwrap_loops\<close> make the same call, \<^verbatim>\<open>_InterlockedCompareExchange\<close> with
  \<^verbatim>\<open>&g_mutex.SpinCount\<close>, 1 and 0, and their conditions are negations of each other: line
  24 tests the negated result and takes its \<^verbatim>\<open>goto\<close>, to \<^verbatim>\<open>LABEL_x379\<close>, when the call
  succeeded; line 35 tests the result and takes its \<^verbatim>\<open>goto\<close>, to \<^verbatim>\<open>LABEL_x2B0\<close>, when the
  call failed. The targets are swapped with the condition, so for every result \<open>r\<close> both
  tests send control to the same label: to the retry at \<^verbatim>\<open>LABEL_x2B0\<close> exactly when the
  call failed (\<open>r\<close> is not 0), and to \<^verbatim>\<open>LABEL_x379\<close> exactly when it succeeded.
\<close>

theorem priming_and_latch_tests_same_decision:
  "concat (map conditions unwrap_loops_body) =
     [ELit 1, EVar ''i'', ENot cas_expr, ENe (EVar ''i'') (ELit 1), cas_expr] \<and>
   priming_cas = latch_cas \<and>
   priming_cas = InterlockedCompareExchange G_mutex_SpinCount 1 0 \<and>
   priming_condition r = (r = 0) \<and>
   latch_condition r = (r \<noteq> 0) \<and>
   priming_condition r = (\<not> latch_condition r) \<and>
   priming_check r = latch_check r \<and>
   (priming_check r = LABEL_x2B0) = (r \<noteq> 0) \<and>
   (latch_check r = LABEL_x2B0) = (r \<noteq> 0) \<and>
   (priming_check r = LABEL_x379) = (r = 0) \<and>
   (latch_check r = LABEL_x379) = (r = 0)"
  by (simp add: unwrap_loops_body_def cas_expr_def priming_cas_def latch_cas_def
        priming_check_def latch_check_def priming_condition_def latch_condition_def)

section \<open>Properties of \<^verbatim>\<open>unwrap_loops_2\<close>\<close>

lemma unwrap_loops_2_eq:
  "unwrap_loops_2 dword uninit n8 a2 n0x4E n0x5F =
     (if dword (a2 + 0x14) < n8
      then [Sub_1800D3BF0 6 0x4D 0x3B
              (clamp_floor (clamp_requested n8 (growth (dword (a2 + 0x14))))) a2]
      else [], 1)"
  by (simp add: unwrap_loops_2_def emit_def Let_def not_le)

text \<open>
  Claim C1. Whenever \<^verbatim>\<open>unwrap_loops_2\<close> takes the growth path (the stored size at
  \<^verbatim>\<open>a2 + 0x14\<close> is below \<^verbatim>\<open>n8\<close> as unsigned values), the size handed to
  \<^verbatim>\<open>sub_1800D3BF0\<close> is computed in three steps, in this order: the stored size plus its
  arithmetic shift by one; then \<^verbatim>\<open>n8\<close> if that is at most \<^verbatim>\<open>n8\<close> as unsigned values; then
  8 if that is below 9 as an \<^verbatim>\<open>int\<close>. For a stored size 5 and a requested size 10 the
  size is 10: the growth is 7, the clamp to the requested size raises it to 10, and the
  clamp to the floor leaves 10. For 2 and 3 the growth 3 is left by the first clamp and
  raised to 8 by the floor; for 10 and 12 the growth 15 is left by both clamps; for 4 and
  \<^verbatim>\<open>0xFFFFFFFF\<close> the first clamp gives \<^verbatim>\<open>0xFFFFFFFF\<close>, which is \<open>-1\<close> as an \<^verbatim>\<open>int\<close>, and the
  floor then gives 8, where the floor first and the requested size second would give
  \<^verbatim>\<open>0xFFFFFFFF\<close>.
\<close>

theorem growth_then_clamps_in_order:
  "(dword (a2 + 0x14) < n8 \<longrightarrow>
      fst (unwrap_loops_2 dword uninit n8 a2 n0x4E n0x5F) =
        [Sub_1800D3BF0 6 0x4D 0x3B
           (let old = dword (a2 + 0x14);
                grown = old + signed_drop_bit 1 old;
                raised = (if grown \<le> n8 then n8 else grown)
            in if raised <s 9 then 8 else raised)
           a2]) \<and>
   fst (unwrap_loops_2 (dword(a2 + 0x14 := 5)) uninit 10 a2 n0x4E n0x5F) =
     [Sub_1800D3BF0 6 0x4D 0x3B 10 a2] \<and>
   growth 5 = 7 \<and> clamp_requested 10 7 = 10 \<and> clamp_floor 10 = 10 \<and>
   fst (unwrap_loops_2 (dword(a2 + 0x14 := 2)) uninit 3 a2 n0x4E n0x5F) =
     [Sub_1800D3BF0 6 0x4D 0x3B 8 a2] \<and>
   growth 2 = 3 \<and> clamp_requested 3 3 = 3 \<and> clamp_floor 3 = 8 \<and>
   fst (unwrap_loops_2 (dword(a2 + 0x14 := 10)) uninit 12 a2 n0x4E n0x5F) =
     [Sub_1800D3BF0 6 0x4D 0x3B 15 a2] \<and>
   growth 10 = 15 \<and> clamp_requested 12 15 = 15 \<and> clamp_floor 15 = 15 \<and>
   fst (unwrap_loops_2 (dword(a2 + 0x14 := 4)) uninit 0xFFFFFFFF a2 n0x4E n0x5F) =
     [Sub_1800D3BF0 6 0x4D 0x3B 8 a2] \<and>
   growth 4 = 6 \<and> clamp_requested 0xFFFFFFFF 6 = 0xFFFFFFFF \<and> clamp_floor 0xFFFFFFFF = 8 \<and>
   clamp_floor 6 = 8 \<and> clamp_requested 0xFFFFFFFF 8 = 0xFFFFFFFF"
proof -
  have general: "fst (unwrap_loops_2 dword uninit n8 a2 n0x4E n0x5F) =
        [Sub_1800D3BF0 6 0x4D 0x3B
           (let old = dword (a2 + 0x14);
                grown = old + signed_drop_bit 1 old;
                raised = (if grown \<le> n8 then n8 else grown)
            in if raised <s 9 then 8 else raised)
           a2]" if "dword (a2 + 0x14) < n8"
    using that
    by (simp add: unwrap_loops_2_eq growth_def clamp_requested_def clamp_floor_def Let_def)
  have vals:
    "growth 5 = 7" "clamp_requested 10 7 = 10" "clamp_floor 10 = 10"
    "growth 2 = 3" "clamp_requested 3 3 = 3" "clamp_floor 3 = 8"
    "growth 10 = 15" "clamp_requested 12 15 = 15" "clamp_floor 15 = 15"
    "growth 4 = 6" "clamp_requested 0xFFFFFFFF 6 = 0xFFFFFFFF" "clamp_floor 0xFFFFFFFF = 8"
    "clamp_floor 6 = 8" "clamp_requested 0xFFFFFFFF 8 = 0xFFFFFFFF"
    by (simp_all add: growth_def clamp_requested_def clamp_floor_def)
  have runs:
    "fst (unwrap_loops_2 (dword(a2 + 0x14 := 5)) uninit 10 a2 n0x4E n0x5F) =
       [Sub_1800D3BF0 6 0x4D 0x3B 10 a2]"
    "fst (unwrap_loops_2 (dword(a2 + 0x14 := 2)) uninit 3 a2 n0x4E n0x5F) =
       [Sub_1800D3BF0 6 0x4D 0x3B 8 a2]"
    "fst (unwrap_loops_2 (dword(a2 + 0x14 := 10)) uninit 12 a2 n0x4E n0x5F) =
       [Sub_1800D3BF0 6 0x4D 0x3B 15 a2]"
    "fst (unwrap_loops_2 (dword(a2 + 0x14 := 4)) uninit 0xFFFFFFFF a2 n0x4E n0x5F) =
       [Sub_1800D3BF0 6 0x4D 0x3B 8 a2]"
    by (simp_all add: unwrap_loops_2_eq vals)
  show ?thesis
    using general vals runs by blast
qed

theorem growth_then_clamps_in_order_witness:
  "(2 :: uint32) < 3 \<and>
   fst (unwrap_loops_2 (\<lambda>_. 2) \<lparr>i_2 = 0x55, v9_2 = 0x66, v6_2 = 0x77, result_2 = 0x88\<rparr>
          3 0x1000 0x4E 0x5F) =
     [Sub_1800D3BF0 6 0x4D 0x3B 8 0x1000]"
  using growth_then_clamps_in_order
    [of "\<lambda>_. 2" "0x1000" 3 "\<lparr>i_2 = 0x55, v9_2 = 0x66, v6_2 = 0x77, result_2 = 0x88\<rparr>"
        "0x4E" "0x5F"]
  by (simp add: Let_def)

text \<open>
  Claim C10. A call of \<^verbatim>\<open>unwrap_loops_2\<close> invokes \<^verbatim>\<open>sub_1800D3BF0\<close> at most once, and
  it does so exactly when the stored size, read as an unsigned value, is strictly below
  \<^verbatim>\<open>n8\<close>. A stored size that is negative as an \<^verbatim>\<open>int\<close> compares large: against a
  requested size below \<open>2 ^ 31\<close> there is no call.
\<close>

theorem resize_call_at_most_once:
  "length (fst (unwrap_loops_2 dword uninit n8 a2 n0x4E n0x5F)) \<le> 1 \<and>
   (fst (unwrap_loops_2 dword uninit n8 a2 n0x4E n0x5F) \<noteq> []) =
     (unat (dword (a2 + 0x14)) < unat n8) \<and>
   (dword (a2 + 0x14) <s 0 \<and> 0 \<le>s n8 \<longrightarrow>
      fst (unwrap_loops_2 dword uninit n8 a2 n0x4E n0x5F) = [])"
proof -
  have "\<not> dword (a2 + 0x14) < n8" if "dword (a2 + 0x14) <s 0" "0 \<le>s n8"
    using that uint_bounded [of n8] uint_bounded [of "dword (a2 + 0x14)"]
    by (auto simp add: word_sless_alt word_sle_eq sint_32 word_less_def split: if_splits)
  then show ?thesis
    by (auto simp add: unwrap_loops_2_eq word_less_nat_alt)
qed

theorem resize_call_at_most_once_witness:
  "(- 3 :: int32) <s 0 \<and> 0 \<le>s (10 :: uint32) \<and>
   fst (unwrap_loops_2 (\<lambda>_. - 3) \<lparr>i_2 = 0x55, v9_2 = 0x66, v6_2 = 0x77, result_2 = 0x88\<rparr> 10 0x1000 0x4E 0x5F) = []"
  using resize_call_at_most_once
    [of "\<lambda>_. - 3" "\<lparr>i_2 = 0x55, v9_2 = 0x66, v6_2 = 0x77, result_2 = 0x88\<rparr>" 10 "0x1000" "0x4E" "0x5F"]
  by (simp add: word_sless_alt word_sle_eq)

text \<open>
  Claim C2, as stated, fails: there is no stored size and no requested size \<^verbatim>\<open>n8\<close> below
  the floor (the unsigned \<^verbatim>\<open>n8\<close> below 9, which covers both the literal 9 of the test
  and the value 8 it assigns) for which the two orders of the clamps differ.
\<close>

theorem clamp_orders_agree_below_floor:
  "\<not> (\<exists>v9 n8. n8 < 9 \<and>
         clamps_reversed n8 (growth v9) \<noteq> clamps_implemented n8 (growth v9))"
proof -
  have "\<not> (n8 <s 0 \<or> (g <s 0 \<and> 8 < n8))" if "n8 < 9" for n8 g :: "32 word"
    using that by (auto simp add: sless_0_32 word_less_def)
  then show ?thesis
    using clamps_differ_iff by blast
qed

text \<open>
  Claim C2, amended. The two orders of the clamps differ exactly when the requested size
  is negative when read as an \<^verbatim>\<open>int\<close> (\<^verbatim>\<open>n8\<close> is \<open>2 ^ 31\<close> or more), or the growth is
  negative as an \<^verbatim>\<open>int\<close> and \<^verbatim>\<open>n8\<close> is above 8. For a stored size 4 and
  \<^verbatim>\<open>n8 = 0xFFFFFFFF\<close> the source order gives 8, which is the size that
  \<^verbatim>\<open>unwrap_loops_2\<close> passes on, and the reversed order gives \<^verbatim>\<open>0xFFFFFFFF\<close>.
\<close>

theorem clamp_orders_differ_iff:
  "(clamps_reversed n8 (growth v9) \<noteq> clamps_implemented n8 (growth v9)) =
     (n8 <s 0 \<or> (growth v9 <s 0 \<and> 8 < n8)) \<and>
   clamps_implemented 0xFFFFFFFF (growth 4) = 8 \<and>
   clamps_reversed 0xFFFFFFFF (growth 4) = 0xFFFFFFFF \<and>
   fst (unwrap_loops_2 (dword(a2 + 0x14 := 4)) uninit 0xFFFFFFFF a2 n0x4E n0x5F) =
     [Sub_1800D3BF0 6 0x4D 0x3B 8 a2]"
proof -
  have v: "clamps_implemented 0xFFFFFFFF (growth 4) = 8"
    "clamps_reversed 0xFFFFFFFF (growth 4) = 0xFFFFFFFF"
    by (simp_all add: clamps_implemented_def clamps_reversed_def growth_def clamp_requested_def
          clamp_floor_def)
  have "fst (unwrap_loops_2 (dword(a2 + 0x14 := 4)) uninit 0xFFFFFFFF a2 n0x4E n0x5F) =
          [Sub_1800D3BF0 6 0x4D 0x3B (clamps_implemented 0xFFFFFFFF (growth 4)) a2]"
    by (simp add: unwrap_loops_2_eq clamps_implemented_def)
  then show ?thesis
    using v clamps_differ_iff [of n8 "growth v9"] by simp
qed

text \<open>
  Claim C6, as stated, fails at the stored size \<open>-3\<close>: the source computes
  \<open>-3 + (-3 >> 1) = -3 + -2 = -5\<close>, and \<open>old-size + old-size/2\<close> with the truncating
  quotient of C is \<open>-3 + -1 = -4\<close>. The stored size \<open>-3\<close> reaches the computation: it is
  \<^verbatim>\<open>0xFFFFFFFD\<close> as an unsigned value, below the requested size \<^verbatim>\<open>0xFFFFFFFF\<close>.
\<close>

theorem growth_differs_from_truncating_division:
  "growth (- 3) = - 5 \<and> growth_spec (- 3) = - 4 \<and> growth (- 3) \<noteq> growth_spec (- 3) \<and>
   fst (unwrap_loops_2 (\<lambda>_. - 3) \<lparr>i_2 = 0x55, v9_2 = 0x66, v6_2 = 0x77, result_2 = 0x88\<rparr>
          0xFFFFFFFF 0x1000 0x4E 0x5F) =
     [Sub_1800D3BF0 6 0x4D 0x3B (clamp_floor (clamp_requested 0xFFFFFFFF (growth (- 3)))) 0x1000]"
  by (simp add: unwrap_loops_2_eq)
     (simp add: growth_def growth_spec_def c_div_def signed_divide_int_def)

text \<open>
  Claim C6, amended. For every 32-bit stored size the growth is, in 32-bit wrap-around
  arithmetic, the stored size plus its half rounded towards minus infinity (the
  arithmetic shift); it equals \<open>old-size + old-size/2\<close> under the truncating quotient
  exactly when the stored size is not negative or is even.
\<close>

theorem growth_is_floor_division:
  "growth v9 = v9 + word_of_int (sint v9 div 2) \<and>
   (growth v9 = growth_spec v9) = (0 \<le>s v9 \<or> even v9)"
  using growth_floor growth_spec_iff by blast

section \<open>Properties of \<^verbatim>\<open>unwrap_loops_3\<close>\<close>

lemma loop_3_unfold:
  "loop_3 h sub a5 s =
     iteration_3 h sub a5 s @
       (if v10_3 s + 1 = v5_3 s then [(last (iteration_3 h sub a5 s))\<lparr>line := 115\<rparr>]
        else loop_3 h sub a5 ((last (iteration_3 h sub a5 s))\<lparr>line := 95\<rparr>))"
proof -
  have "v9_3 (last (iteration_3 h sub a5 s)) = v10_3 s"
    "v5_3 (last (iteration_3 h sub a5 s)) = v5_3 s"
    by (simp_all add: iteration_3_def invoke_3_def Let_def)
  then show ?thesis
    by (subst loop_3.simps) (simp add: Let_def del: loop_3.simps)
qed

lemma line_iteration_3:
  "map line (iteration_3 h sub a5 s) = [line s, 97, 98, 105, 106, 113, 114]"
  by (simp add: iteration_3_def invoke_3_def Let_def)

lemma v10_iteration_3:
  "line s = 95 \<Longrightarrow> map v10_3 (filter at_call (iteration_3 h sub a5 s)) = [v10_3 s, v10_3 s]"
  by (simp add: iteration_3_def invoke_3_def Let_def at_call_def)

lemma last_iteration_3:
  "v10_3 (last (iteration_3 h sub a5 s)) = v10_3 s + 1"
  "v5_3 (last (iteration_3 h sub a5 s)) = v5_3 s"
  "line (last (iteration_3 h sub a5 s)) = 114"
  by (simp_all add: iteration_3_def invoke_3_def Let_def)

lemma loop_3_shape:
  "line s = 95 \<Longrightarrow> unat (v5_3 s - v10_3 s - 1) = d \<Longrightarrow>
   map line (loop_3 h sub a5 s) =
     concat (replicate d [95, 97, 98, 105, 106, 113, 114]) @ [95, 97, 98, 105, 106, 113, 114, 115] \<and>
   map v10_3 (filter at_call (loop_3 h sub a5 s)) =
     concat (map (\<lambda>k. [v10_3 s + of_nat k, v10_3 s + of_nat k]) [0..<Suc d])"
proof (induction d arbitrary: s)
  case 0
  then have "v5_3 s - v10_3 s - 1 = 0" by (simp add: unat_eq_0)
  moreover have "v5_3 s - v10_3 s - 1 = v5_3 s - (v10_3 s + 1)" by simp
  ultimately have brk: "v10_3 s + 1 = v5_3 s" by (simp only: right_minus_eq)
  show ?case
    using "0.prems"(1)
    by (subst (1 2) loop_3_unfold)
       (simp add: brk line_iteration_3 v10_iteration_3 at_call_def del: loop_3.simps)
next
  case (Suc d)
  let ?s = "(last (iteration_3 h sub a5 s))\<lparr>line := 95\<rparr>"
  have nz: "v5_3 s - v10_3 s - 1 \<noteq> 0" using Suc.prems(2) by (auto simp: unat_eq_0)
  moreover have e: "v5_3 s - v10_3 s - 1 = v5_3 s - (v10_3 s + 1)" by simp
  ultimately have cont: "v10_3 s + 1 \<noteq> v5_3 s" by (simp only: right_minus_eq)
  have "unat (v5_3 ?s - v10_3 ?s - 1) = unat (v5_3 s - v10_3 s - 1 - 1)"
    by (simp add: last_iteration_3)
  also have "\<dots> = unat (v5_3 s - v10_3 s - 1) - 1" using nz by (rule unat_minus_one)
  finally have d: "unat (v5_3 ?s - v10_3 ?s - 1) = d" using Suc.prems(2) by simp
  have ih: "map line (loop_3 h sub a5 ?s) =
     concat (replicate d [95, 97, 98, 105, 106, 113, 114]) @ [95, 97, 98, 105, 106, 113, 114, 115] \<and>
   map v10_3 (filter at_call (loop_3 h sub a5 ?s)) =
     concat (map (\<lambda>k. [v10_3 ?s + of_nat k, v10_3 ?s + of_nat k]) [0..<Suc d])"
    by (rule Suc.IH [OF _ d]) simp
  have unf: "loop_3 h sub a5 s = iteration_3 h sub a5 s @ loop_3 h sub a5 ?s"
    by (subst loop_3_unfold) (simp add: cont del: loop_3.simps)
  show ?case
    unfolding unf using Suc.prems(1) ih
    by (simp add: line_iteration_3 v10_iteration_3 last_iteration_3 map_upt_Suc add.assoc
             del: loop_3.simps upt_Suc)
qed

lemma loop_3_nonempty: "loop_3 h sub a5 s \<noteq> []"
  by (subst loop_3_unfold) (simp add: iteration_3_def invoke_3_def Let_def del: loop_3.simps)

lemma unwrap_loops_3_lines:
  "map line (fst (unwrap_loops_3 h sub entry n0x5C a2 n0x53 n9 a5)) =
     (if a2 \<noteq> 0
      then [91, 92, 94] @
           concat (replicate (unat a2 - 1) [95, 97, 98, 105, 106, 113, 114]) @
           [95, 97, 98, 105, 106, 113, 114, 115] @ [119]
      else [91, 92, 119])"
proof (cases "a2 = 0")
  case True
  then show ?thesis by (simp add: unwrap_loops_3_def)
next
  case False
  let ?s = "entry\<lparr>calls_3 := [], v5_3 := a2, v10_3 := 0, line := 95\<rparr>"
  have d: "unat (v5_3 ?s - v10_3 ?s - 1) = unat a2 - 1"
    using False by (simp add: unat_minus_one)
  have "map line (loop_3 h sub a5 ?s) =
     concat (replicate (unat a2 - 1) [95, 97, 98, 105, 106, 113, 114]) @
     [95, 97, 98, 105, 106, 113, 114, 115]"
    using loop_3_shape [OF _ d, of h sub a5] by simp
  then show ?thesis
    using False loop_3_nonempty [of h sub a5 ?s]
    by (simp add: unwrap_loops_3_def Let_def del: loop_3.simps)
qed

lemma unwrap_loops_3_calls:
  "map v10_3 (filter at_call (fst (unwrap_loops_3 h sub entry n0x5C a2 n0x53 n9 a5))) =
     concat (map (\<lambda>k. [of_nat k, of_nat k]) [0..<unat a2])"
proof (cases "a2 = 0")
  case True
  then show ?thesis by (simp add: unwrap_loops_3_def at_call_def)
next
  case False
  let ?s = "entry\<lparr>calls_3 := [], v5_3 := a2, v10_3 := 0, line := 95\<rparr>"
  have d: "unat (v5_3 ?s - v10_3 ?s - 1) = unat a2 - 1"
    using False by (simp add: unat_minus_one)
  have "map v10_3 (filter at_call (loop_3 h sub a5 ?s)) =
     concat (map (\<lambda>k. [of_nat k, of_nat k]) [0..<Suc (unat a2 - 1)])"
    using loop_3_shape [OF _ d, of h sub a5] by simp
  moreover have "Suc (unat a2 - 1) = unat a2"
    using False by (simp add: unat_gt_0)
  ultimately show ?thesis
    using False
    by (simp add: unwrap_loops_3_def Let_def at_call_def del: loop_3.simps upt_Suc)
qed

lemma crossings_inside_then_exit:
  "in_region p \<Longrightarrow> list_all in_region ns \<Longrightarrow> \<not> in_region q \<Longrightarrow>
   crossings (p # ns @ [q]) = [(last (p # ns), q)]"
  by (induction ns arbitrary: p) auto

lemma iteration_lines_in_region:
  "list_all in_region (concat (replicate d [95, 97, 98, 105, 106, 113, 114]))"
  by (induction d) (simp_all add: in_region_def)

text \<open>
  Claim C7. In every run of \<^verbatim>\<open>unwrap_loops_3\<close> the region that \<^verbatim>\<open>if (a2)\<close> guards is
  entered at most once, only from the guard of line 92 (to line 94), and a run that
  enters it leaves it exactly once, from the \<^verbatim>\<open>break\<close> of line 115 (to the \<^verbatim>\<open>return\<close> of
  line 119), and does not enter it again: the run crosses the border of the region at
  these two places when \<^verbatim>\<open>a2\<close> is not 0, and nowhere when it is.
\<close>

theorem protected_region_entered_and_left_once:
  "crossings (map line (fst (unwrap_loops_3 set_HIDWORD sub_180221640 entry n0x5C a2 n0x53 n9 a5))) =
     (if a2 \<noteq> 0 then [(92, 94), (115, 119)] else [])"
proof (cases "a2 = 0")
  case True
  then show ?thesis by (simp add: unwrap_loops_3_lines in_region_def)
next
  case False
  let ?ns = "concat (replicate (unat a2 - 1) [95, 97, 98, 105, 106, 113, 114]) @
             [95, 97, 98, 105, 106, 113, 114, 115]"
  have "list_all in_region ?ns"
    using iteration_lines_in_region [of "unat a2 - 1"] by (simp add: in_region_def)
  then have "crossings (94 # ?ns @ [119]) = [(last (94 # ?ns), 119)]"
    by (intro crossings_inside_then_exit) (simp_all add: in_region_def)
  then have "crossings (94 # ?ns @ [119]) = [(115, 119)]" by simp
  then have "crossings (91 # 92 # 94 # ?ns @ [119]) = [(92, 94), (115, 119)]"
    by (simp add: in_region_def)
  then show ?thesis
    using False by (simp add: unwrap_loops_3_lines)
qed

lemma length_concat_pairs:
  "length (concat (map (\<lambda>k. [f k, g k]) [0..<n])) = 2 * n"
  by (induction n) simp_all

lemma sint_of_nat_le:
  "k < n \<Longrightarrow> n \<le> 2^31  \<Longrightarrow> sint (of_nat k :: 32 word) = int k"
  by (rule sint_of_nat_32) simp

lemma iteration_3_log:
  "line s = 95 \<Longrightarrow>
   calls_3 (last (iteration_3 h sub a5 s)) =
     calls_3 s @ map (call_at a5) (filter at_call (iteration_3 h sub a5 s)) \<and>
   qword (last (iteration_3 h sub a5 s)) =
     foldl (\<lambda>m c. sub c m) (qword s) (map (call_at a5) (filter at_call (iteration_3 h sub a5 s)))"
  by (simp add: iteration_3_def invoke_3_def Let_def at_call_def call_at_def)

lemma loop_3_log:
  "line s = 95 \<Longrightarrow> unat (v5_3 s - v10_3 s - 1) = d \<Longrightarrow>
   calls_3 (last (loop_3 h sub a5 s)) =
     calls_3 s @ map (call_at a5) (filter at_call (loop_3 h sub a5 s)) \<and>
   qword (last (loop_3 h sub a5 s)) =
     foldl (\<lambda>m c. sub c m) (qword s) (map (call_at a5) (filter at_call (loop_3 h sub a5 s)))"
proof (induction d arbitrary: s)
  case 0
  then have "v5_3 s - v10_3 s - 1 = 0" by (simp add: unat_eq_0)
  moreover have "v5_3 s - v10_3 s - 1 = v5_3 s - (v10_3 s + 1)" by simp
  ultimately have brk: "v10_3 s + 1 = v5_3 s" by (simp only: right_minus_eq)
  have unf: "loop_3 h sub a5 s =
      iteration_3 h sub a5 s @ [(last (iteration_3 h sub a5 s))\<lparr>line := 115\<rparr>]"
    by (subst loop_3_unfold) (simp add: brk del: loop_3.simps)
  have "\<not> at_call ((last (iteration_3 h sub a5 s))\<lparr>line := 115\<rparr>)"
    by (simp add: at_call_def)
  then show ?case
    unfolding unf using iteration_3_log [OF "0.prems"(1), of h sub a5]
    by simp
next
  case (Suc d)
  let ?s = "(last (iteration_3 h sub a5 s))\<lparr>line := 95\<rparr>"
  have nz: "v5_3 s - v10_3 s - 1 \<noteq> 0" using Suc.prems(2) by (auto simp: unat_eq_0)
  moreover have e: "v5_3 s - v10_3 s - 1 = v5_3 s - (v10_3 s + 1)" by simp
  ultimately have cont: "v10_3 s + 1 \<noteq> v5_3 s" by (simp only: right_minus_eq)
  have "unat (v5_3 ?s - v10_3 ?s - 1) = unat (v5_3 s - v10_3 s - 1 - 1)"
    by (simp add: last_iteration_3)
  also have "\<dots> = unat (v5_3 s - v10_3 s - 1) - 1" using nz by (rule unat_minus_one)
  finally have d: "unat (v5_3 ?s - v10_3 ?s - 1) = d" using Suc.prems(2) by simp
  have ih: "calls_3 (last (loop_3 h sub a5 ?s)) =
     calls_3 ?s @ map (call_at a5) (filter at_call (loop_3 h sub a5 ?s)) \<and>
   qword (last (loop_3 h sub a5 ?s)) =
     foldl (\<lambda>m c. sub c m) (qword ?s) (map (call_at a5) (filter at_call (loop_3 h sub a5 ?s)))"
    by (rule Suc.IH [OF _ d]) simp
  have unf: "loop_3 h sub a5 s = iteration_3 h sub a5 s @ loop_3 h sub a5 ?s"
    by (subst loop_3_unfold) (simp add: cont del: loop_3.simps)
  show ?case
    unfolding unf using ih iteration_3_log [OF Suc.prems(1), of h sub a5] loop_3_nonempty [of h sub a5 ?s]
    by (simp del: loop_3.simps)
qed

lemma unwrap_loops_3_log:
  "calls_3 (last (fst (unwrap_loops_3 h sub entry n0x5C a2 n0x53 n9 a5))) =
     map (call_at a5) (filter at_call (fst (unwrap_loops_3 h sub entry n0x5C a2 n0x53 n9 a5))) \<and>
   qword (last (fst (unwrap_loops_3 h sub entry n0x5C a2 n0x53 n9 a5))) =
     foldl (\<lambda>m c. sub c m) (qword entry)
       (calls_3 (last (fst (unwrap_loops_3 h sub entry n0x5C a2 n0x53 n9 a5))))"
proof (cases "a2 = 0")
  case True
  then show ?thesis by (simp add: unwrap_loops_3_def at_call_def)
next
  case False
  let ?s = "entry\<lparr>calls_3 := [], v5_3 := a2, v10_3 := 0, line := 95\<rparr>"
  have d: "unat (v5_3 ?s - v10_3 ?s - 1) = unat a2 - 1"
    using False by (simp add: unat_minus_one)
  show ?thesis
    using False loop_3_log [OF _ d, of h sub a5] loop_3_nonempty [of h sub a5 ?s]
    by (simp add: unwrap_loops_3_def Let_def at_call_def del: loop_3.simps)
qed

lemma filter_concat_replicate:
  "filter P (concat (replicate d xs)) = concat (replicate d (filter P xs))"
  by (induction d) simp_all

lemma literal_args_call_at:
  "at_call s \<Longrightarrow>
   literal_args (call_at a5 s) = (if line s = 98 then (0xA, 0x5E, 0x45) else (0x62, 0x2A, 0x19))"
  by (simp add: call_at_def first_call_def second_call_def)

lemma count_by_callee:
  "foldl (\<lambda>m c. m(p := m p + 1)) m cs p = m p + of_nat (length cs)"
  by (induction cs arbitrary: m) (simp_all add: add.assoc)

lemma concat_replicate_snoc:
  "concat (replicate d xs) @ xs = concat (replicate (Suc d) xs)"
  by (induction d) simp_all

lemma call_lines_3:
  "map line (filter at_call (fst (unwrap_loops_3 h sub entry n0x5C a2 n0x53 n9 a5))) =
     concat (replicate (unat a2) [98, 106])"
proof -
  let ?tr = "fst (unwrap_loops_3 h sub entry n0x5C a2 n0x53 n9 a5)"
  have "at_call = (\<lambda>s. line s = 98 \<or> line s = 106)"
    by (rule ext) (simp add: at_call_def)
  then have "map line (filter at_call ?tr) = filter (\<lambda>n. n = 98 \<or> n = 106) (map line ?tr)"
    by (simp add: filter_map comp_def)
  also have "\<dots> = concat (replicate (unat a2) [98, 106])"
  proof (cases "a2 = 0")
    case True
    then show ?thesis by (simp add: unwrap_loops_3_lines)
  next
    case False
    then have "Suc (unat a2 - 1) = unat a2" by (simp add: unat_gt_0)
    then have "concat (replicate (unat a2 - 1) [98, 106 :: nat]) @ [98, 106] =
               concat (replicate (unat a2) [98, 106])"
      using concat_replicate_snoc [of "unat a2 - 1" "[98, 106 :: nat]"] by simp
    then show ?thesis
      using False by (simp add: unwrap_loops_3_lines filter_concat_replicate)
  qed
  finally show ?thesis .
qed

lemma literal_args_3:
  "map literal_args (calls_3 (last (fst (unwrap_loops_3 h sub entry n0x5C a2 n0x53 n9 a5)))) =
     concat (replicate (unat a2) [(0xA, 0x5E, 0x45), (0x62, 0x2A, 0x19)])"
proof -
  let ?tr = "fst (unwrap_loops_3 h sub entry n0x5C a2 n0x53 n9 a5)"
  let ?f = "\<lambda>n :: nat. if n = 98 then (0xA, 0x5E, 0x45) else (0x62, 0x2A, 0x19 :: int32)"
  have "map literal_args (calls_3 (last ?tr)) =
        map (\<lambda>s. literal_args (call_at a5 s)) (filter at_call ?tr)"
    using unwrap_loops_3_log [of h sub entry n0x5C a2 n0x53 n9 a5] by (simp add: comp_def)
  also have "\<dots> = map (\<lambda>s. ?f (line s)) (filter at_call ?tr)"
    by (intro map_cong refl) (simp add: literal_args_call_at)
  also have "\<dots> = map ?f (map line (filter at_call ?tr))"
    by (simp add: comp_def)
  also have "\<dots> = concat (replicate (unat a2) [(0xA, 0x5E, 0x45), (0x62, 0x2A, 0x19)])"
    unfolding call_lines_3 by (simp add: map_concat)
  finally show ?thesis .
qed

text \<open>
  Claim C9. For every \<^verbatim>\<open>a2\<close> with \<open>0 < a2 \<le> 2 ^ 31 - 1\<close> the loop of \<^verbatim>\<open>unwrap_loops_3\<close>
  ends after exactly \<^verbatim>\<open>a2\<close> passes (control is \<^verbatim>\<open>a2\<close> times at line 97, the head of the
  body, and the run ends at the \<^verbatim>\<open>return\<close> of line 119), and calls \<^verbatim>\<open>sub_180221640\<close>
  exactly \<open>2 * a2\<close> times: the list of the calls made has \<open>2 * a2\<close> entries, which are
  \<^verbatim>\<open>a2\<close> times the call with the literals \<^verbatim>\<open>0xA, 0x5E, 0x45\<close> followed by the call with
  the literals \<^verbatim>\<open>0x62, 0x2A, 0x19\<close>; they are the calls of lines 98 and 106 in the states
  in which control is there, and the index \<^verbatim>\<open>v10\<close> in these states is 0, 0, 1, 1, ...,
  \<open>a2 - 1\<close>, \<open>a2 - 1\<close>. The memory at the end is what these calls, made in this order,
  leave of the memory on entry, whatever the external function does; in particular an
  external function that counts its calls in a memory cell adds \<open>2 * a2\<close> to the cell.
  For \<^verbatim>\<open>a2 = 0\<close> the function is never called and memory is left as it is.
\<close>

theorem loop_runs_a2_times_two_calls_each:
  "(0 < a2 \<and> a2 \<le> 0x7FFFFFFF \<longrightarrow>
      length (filter (\<lambda>s. line s = 97)
                (fst (unwrap_loops_3 set_HIDWORD sub_180221640 entry n0x5C a2 n0x53 n9 a5))) =
        unat a2 \<and>
      length (calls_3 (last
                (fst (unwrap_loops_3 set_HIDWORD sub_180221640 entry n0x5C a2 n0x53 n9 a5)))) =
        2 * unat a2 \<and>
      map literal_args
          (calls_3 (last
             (fst (unwrap_loops_3 set_HIDWORD sub_180221640 entry n0x5C a2 n0x53 n9 a5)))) =
        concat (replicate (unat a2) [(0xA, 0x5E, 0x45), (0x62, 0x2A, 0x19)]) \<and>
      calls_3 (last (fst (unwrap_loops_3 set_HIDWORD sub_180221640 entry n0x5C a2 n0x53 n9 a5))) =
        map (call_at a5)
          (filter at_call
             (fst (unwrap_loops_3 set_HIDWORD sub_180221640 entry n0x5C a2 n0x53 n9 a5))) \<and>
      length (filter at_call
                (fst (unwrap_loops_3 set_HIDWORD sub_180221640 entry n0x5C a2 n0x53 n9 a5))) =
        2 * unat a2 \<and>
      map (\<lambda>s. sint (v10_3 s))
          (filter at_call
             (fst (unwrap_loops_3 set_HIDWORD sub_180221640 entry n0x5C a2 n0x53 n9 a5))) =
        concat (map (\<lambda>k. [int k, int k]) [0..<unat a2]) \<and>
      qword (last (fst (unwrap_loops_3 set_HIDWORD sub_180221640 entry n0x5C a2 n0x53 n9 a5))) =
        foldl (\<lambda>m c. sub_180221640 c m) (qword entry)
          (calls_3 (last
             (fst (unwrap_loops_3 set_HIDWORD sub_180221640 entry n0x5C a2 n0x53 n9 a5)))) \<and>
      qword (last (fst (unwrap_loops_3 set_HIDWORD (\<lambda>c m. m(p := m p + 1)) entry
                          n0x5C a2 n0x53 n9 a5))) p =
        qword entry p + of_nat (2 * unat a2) \<and>
      line (last (fst (unwrap_loops_3 set_HIDWORD sub_180221640 entry n0x5C a2 n0x53 n9 a5))) =
        119) \<and>
   calls_3 (last (fst (unwrap_loops_3 set_HIDWORD sub_180221640 entry n0x5C 0 n0x53 n9 a5))) = [] \<and>
   qword (last (fst (unwrap_loops_3 set_HIDWORD sub_180221640 entry n0x5C 0 n0x53 n9 a5))) =
     qword entry \<and>
   filter at_call (fst (unwrap_loops_3 set_HIDWORD sub_180221640 entry n0x5C 0 n0x53 n9 a5)) = []"
proof -
  let ?tr = "fst (unwrap_loops_3 set_HIDWORD sub_180221640 entry n0x5C a2 n0x53 n9 a5)"
  let ?cnt = "fst (unwrap_loops_3 set_HIDWORD (\<lambda>c m. m(p := m p + 1)) entry n0x5C a2 n0x53 n9 a5)"
  have lines: "map line ?tr =
     (if a2 \<noteq> 0
      then [91, 92, 94] @
           concat (replicate (unat a2 - 1) [95, 97, 98, 105, 106, 113, 114]) @
           [95, 97, 98, 105, 106, 113, 114, 115] @ [119]
      else [91, 92, 119])"
    by (rule unwrap_loops_3_lines)
  have calls: "map v10_3 (filter at_call ?tr) =
                 concat (map (\<lambda>k. [of_nat k, of_nat k]) [0..<unat a2])"
    by (rule unwrap_loops_3_calls)
  have log: "calls_3 (last ?tr) = map (call_at a5) (filter at_call ?tr)"
    and mem: "qword (last ?tr) =
                foldl (\<lambda>m c. sub_180221640 c m) (qword entry) (calls_3 (last ?tr))"
    using unwrap_loops_3_log [of set_HIDWORD sub_180221640 entry n0x5C a2 n0x53 n9 a5]
    by simp_all
  have none:
    "calls_3 (last (fst (unwrap_loops_3 set_HIDWORD sub_180221640 entry n0x5C 0 n0x53 n9 a5))) = []"
    "qword (last (fst (unwrap_loops_3 set_HIDWORD sub_180221640 entry n0x5C 0 n0x53 n9 a5))) =
       qword entry"
    "filter at_call (fst (unwrap_loops_3 set_HIDWORD sub_180221640 entry n0x5C 0 n0x53 n9 a5)) = []"
    by (simp_all add: unwrap_loops_3_def at_call_def)
  have cnt: "length (filter (\<lambda>n. n = 97)
               (concat (replicate d [95, 97, 98, 105, 106, 113, 114 :: nat]))) = d"
    for d :: nat
    by (induction d) simp_all
  have iters: "length (filter (\<lambda>s. line s = 97) ?tr) = unat a2" if "a2 \<noteq> 0"
  proof -
    have "length (filter (\<lambda>s. line s = 97) ?tr) = length (filter (\<lambda>n. n = 97) (map line ?tr))"
      by (simp add: filter_map comp_def)
    also have "\<dots> = Suc (unat a2 - 1)"
      unfolding lines using that by (simp add: cnt)
    also have "\<dots> = unat a2" using that by (simp add: unat_gt_0)
    finally show ?thesis .
  qed
  have len: "length (filter at_call tr) = 2 * unat a2"
    if "map v10_3 (filter at_call tr) = concat (map (\<lambda>k. [of_nat k, of_nat k]) [0..<unat a2])"
    for tr
  proof -
    have "length (filter at_call tr) = length (map v10_3 (filter at_call tr))" by simp
    also have "\<dots> = 2 * unat a2"
      unfolding that by (rule length_concat_pairs)
    finally show ?thesis .
  qed
  have len_log: "length (calls_3 (last ?tr)) = 2 * unat a2"
    unfolding log using len [OF calls] by simp
  have counted: "qword (last ?cnt) p = qword entry p + of_nat (2 * unat a2)"
  proof -
    have "calls_3 (last ?cnt) = map (call_at a5) (filter at_call ?cnt)"
      and m: "qword (last ?cnt) =
             foldl (\<lambda>m c. m(p := m p + 1)) (qword entry) (calls_3 (last ?cnt))"
      using unwrap_loops_3_log [of set_HIDWORD "\<lambda>c m. m(p := m p + 1)" entry n0x5C a2 n0x53 n9 a5]
      by simp_all
    then have "length (calls_3 (last ?cnt)) = 2 * unat a2"
      using len [OF unwrap_loops_3_calls] by simp
    then show ?thesis
      unfolding m by (simp only: count_by_callee)
  qed
  have idx: "map (\<lambda>s. sint (v10_3 s)) (filter at_call ?tr) =
               concat (map (\<lambda>k. [int k, int k]) [0..<unat a2])" if "a2 \<le> 0x7FFFFFFF"
  proof -
    have b: "unat a2 \<le> 2^31" using that by (simp add: word_le_nat_alt)
    have "map (\<lambda>s. sint (v10_3 s)) (filter at_call ?tr) =
            map sint (map v10_3 (filter at_call ?tr))"
      by simp
    also have "\<dots> = concat (map (\<lambda>k. [sint (of_nat k :: int32), sint (of_nat k :: int32)])
                              [0..<unat a2])"
      unfolding calls by (simp add: map_concat comp_def)
    also have "\<dots> = concat (map (\<lambda>k. [int k, int k]) [0..<unat a2])"
      using b by (intro arg_cong [where f = concat] map_cong refl) (simp add: sint_of_nat_le)
    finally show ?thesis .
  qed
  have ret: "line (last ?tr) = 119"
  proof -
    have "map line ?tr \<noteq> []" unfolding lines by simp
    then have "?tr \<noteq> []" by simp
    then have "line (last ?tr) = last (map line ?tr)"
      by (simp add: last_map)
    also have "\<dots> = 119" unfolding lines by simp
    finally show ?thesis .
  qed
  show ?thesis
    using iters len [OF calls] len_log log mem counted idx ret none
      literal_args_3 [of set_HIDWORD sub_180221640 entry n0x5C a2 n0x53 n9 a5]
    by (simp add: word_neq_0_conv)
qed

theorem loop_runs_a2_times_two_calls_each_witness:
  "(0 :: uint32) < 2 \<and> (2 :: uint32) \<le> 0x7FFFFFFF \<and>
   calls_3 (last (fst (unwrap_loops_3 (\<lambda>x hi. x) (\<lambda>c m. m)
      \<lparr>line = 0, v5_3 = 0x55, v10_3 = 0x66, v7_3 = 0x77, v8_3 = 0x88, v9_3 = 0x99,
        qword = (\<lambda>a. a), calls_3 = []\<rparr>
      0x5C 2 0x53 9 0x1000))) =
     [Sub_180221640 0x1028 0xA 0x5E 0x1030 0x45 0x77,
      Sub_180221640 0x1010 0x62 0x2A 0x1018 0x19 0x88,
      Sub_180221640 0x1068 0xA 0x5E 0x1070 0x45 0x77,
      Sub_180221640 0x1050 0x62 0x2A 0x1058 0x19 0x88] \<and>
   map (\<lambda>s. sint (v10_3 s))
     (filter at_call (fst (unwrap_loops_3 (\<lambda>x hi. x) (\<lambda>c m. m)
        \<lparr>line = 0, v5_3 = 0x55, v10_3 = 0x66, v7_3 = 0x77, v8_3 = 0x88, v9_3 = 0x99,
          qword = (\<lambda>a. a), calls_3 = []\<rparr>
        0x5C 2 0x53 9 0x1000))) =
     [0, 0, 1, 1] \<and>
   qword (last (fst (unwrap_loops_3 (\<lambda>x hi. x) (\<lambda>c m. m(0 := m 0 + 1))
      \<lparr>line = 0, v5_3 = 0x55, v10_3 = 0x66, v7_3 = 0x77, v8_3 = 0x88, v9_3 = 0x99,
        qword = (\<lambda>a. a), calls_3 = []\<rparr>
      0x5C 2 0x53 9 0x1000))) 0 = 4"
proof -
  let ?e = "\<lparr>line = 0, v5_3 = 0x55, v10_3 = 0x66, v7_3 = 0x77, v8_3 = 0x88, v9_3 = 0x99,
             qword = (\<lambda>a. a), calls_3 = []\<rparr>"
  let ?tr = "fst (unwrap_loops_3 (\<lambda>x hi. x) (\<lambda>c m. m) ?e 0x5C 2 0x53 9 0x1000)"
  note c9 = loop_runs_a2_times_two_calls_each [of 2 "\<lambda>x hi. x" "\<lambda>c m. m" ?e "0x5C" "0x53" 9 "0x1000" 0]
  have b: "(0 :: uint32) < 2" "(2 :: uint32) \<le> 0x7FFFFFFF" by simp_all
  have idx: "map (\<lambda>s. sint (v10_3 s)) (filter at_call ?tr) = [0, 0, 1, 1]"
    using c9 b by (simp add: upt_rec)
  have cnt: "qword (last (fst (unwrap_loops_3 (\<lambda>x hi. x) (\<lambda>c m. m(0 := m 0 + 1)) ?e
                                0x5C 2 0x53 9 0x1000))) 0 = 4"
    using c9 b by simp
  have log: "calls_3 (last ?tr) =
     [Sub_180221640 0x1028 0xA 0x5E 0x1030 0x45 0x77,
      Sub_180221640 0x1010 0x62 0x2A 0x1018 0x19 0x88,
      Sub_180221640 0x1068 0xA 0x5E 0x1070 0x45 0x77,
      Sub_180221640 0x1050 0x62 0x2A 0x1058 0x19 0x88]"
    by (simp add: unwrap_loops_3_def iteration_3_def invoke_3_def first_call_def second_call_def
          Let_def)
  show ?thesis using b idx cnt log by simp
qed

section \<open>The dispatch variable and the returned values\<close>

text \<open>
  Claim C5, as stated, fails: the dispatch variable \<^verbatim>\<open>i\<close> is not a control variable in
  the words of the specification, neither in \<^verbatim>\<open>unwrap_loops\<close> nor in \<^verbatim>\<open>unwrap_loops_2\<close>.
  Both read it in \<^verbatim>\<open>result = i;\<close>, which is no condition of a branch.
\<close>

theorem dispatch_variable_read_outside_branches:
  "\<not> control_variable ''i'' unwrap_loops_body \<and>
   \<not> control_variable ''i'' unwrap_loops_2_body \<and>
   SAssign ''result'' (EVar ''i'') \<in> set (concat (map (other_reads_of ''i'') unwrap_loops_body)) \<and>
   SAssign ''result'' (EVar ''i'') \<in> set (concat (map (other_reads_of ''i'') unwrap_loops_2_body))"
  by (simp add: control_variable_def unwrap_loops_body_def unwrap_loops_2_body_def)

text \<open>
  Claim C5, amended. In \<^verbatim>\<open>unwrap_loops\<close> and in \<^verbatim>\<open>unwrap_loops_2\<close> every write to \<^verbatim>\<open>i\<close>
  stores one of the literals 0, 1 and 2, and the conditions that read \<^verbatim>\<open>i\<close> are
  \<^verbatim>\<open>i\<close> and \<^verbatim>\<open>i != 1\<close> (\<^verbatim>\<open>i != 2\<close> in \<^verbatim>\<open>unwrap_loops_2\<close>). One read of \<^verbatim>\<open>i\<close> is in no
  condition: the assignment \<^verbatim>\<open>result = i;\<close> at the head of the inner loop; and
  \<^verbatim>\<open>result\<close> is what the function returns, so the value of \<^verbatim>\<open>i\<close> leaves the loop.
\<close>

theorem dispatch_variable_accesses:
  "list_all small_literal (concat (map (writes_of ''i'') unwrap_loops_body)) \<and>
   list_all small_literal (concat (map (writes_of ''i'') unwrap_loops_2_body)) \<and>
   filter (reads ''i'') (concat (map conditions unwrap_loops_body)) =
     [EVar ''i'', ENe (EVar ''i'') (ELit 1)] \<and>
   filter (reads ''i'') (concat (map conditions unwrap_loops_2_body)) =
     [EVar ''i'', ENe (EVar ''i'') (ELit 2)] \<and>
   concat (map (other_reads_of ''i'') unwrap_loops_body) = [SAssign ''result'' (EVar ''i'')] \<and>
   concat (map (other_reads_of ''i'') unwrap_loops_2_body) = [SAssign ''result'' (EVar ''i'')] \<and>
   concat (map returns unwrap_loops_body) = [EVar ''result''] \<and>
   concat (map returns unwrap_loops_2_body) = [EVar ''result'']"
  by (simp add: small_literal_def unwrap_loops_body_def unwrap_loops_2_body_def)

text \<open>
  Claim C8. The value a function returns is the same in any two runs, whatever the
  arguments, the memory, the values the locals hold on entry and the results of the
  external functions are: \<^verbatim>\<open>unwrap_loops\<close> returns 2 whenever it returns (and it returns
  exactly when one of the calls of \<^verbatim>\<open>_InterlockedCompareExchange\<close> returns 0),
  \<^verbatim>\<open>unwrap_loops_2\<close> returns 1 and \<^verbatim>\<open>unwrap_loops_3\<close> returns 4.
\<close>

theorem returned_values_are_constant:
  "(snd (unwrap_loops rs uninit) = Some r \<and> snd (unwrap_loops rs' uninit') = Some r' \<longrightarrow>
      r = r' \<and> r = 2) \<and>
   (snd (unwrap_loops rs uninit) = Some 2) = (0 \<in> set rs) \<and>
   snd (unwrap_loops_2 dword uninit2 n8 a2 n0x4E n0x5F) =
     snd (unwrap_loops_2 dword' uninit2' n8' a2' n0x4E' n0x5F') \<and>
   snd (unwrap_loops_2 dword uninit2 n8 a2 n0x4E n0x5F) = 1 \<and>
   snd (unwrap_loops_3 set_HIDWORD sub_180221640 entry n0x5C b2 n0x53 n9 a5) =
     snd (unwrap_loops_3 set_HIDWORD' sub_180221640' entry' n0x5C' b2' n0x53' n9' a5') \<and>
   snd (unwrap_loops_3 set_HIDWORD sub_180221640 entry n0x5C b2 n0x53 n9 a5) = 4"
proof -
  have "snd (unwrap_loops_3 h sub e p0 u p1 p2 p3) = 4" for h sub e p0 u p1 p2 p3
    by (simp add: unwrap_loops_3_def Let_def del: loop_3.simps)
  then show ?thesis
    by (simp add: unwrap_loops_result unwrap_loops_2_eq)
qed

theorem returned_values_are_constant_witness:
  "snd (unwrap_loops [1, 0] \<lparr>i_1 = 0x55, v2_1 = 0x66, result_1 = 0x77\<rparr>) = Some 2 \<and>
   snd (unwrap_loops [3, 7, 0, 5] \<lparr>i_1 = 1, v2_1 = 2, result_1 = 3\<rparr>) = Some 2"
  using returned_values_are_constant
    [of "[1, 0]" "\<lparr>i_1 = 0x55, v2_1 = 0x66, result_1 = 0x77\<rparr>" 2
        "[3, 7, 0, 5]" "\<lparr>i_1 = 1, v2_1 = 2, result_1 = 3\<rparr>" 2]
  by (simp add: unwrap_loops_result)

end
